theory Spec2Isabelle
  imports Complex_Main "HOL-Library.AList" "HOL-Library.Sublist"
begin

section \<open>Workflow progress and broadcast core of the PINN platform\<close>

text \<open>
  A shallow embedding of two JavaScript classes:
  \<^item> \<open>WorkflowManager\<close> (pinn-workers-deploy/src/services/workflow-manager.js), the
    orchestrator that drives a workflow through its steps and persists every transition
    in the key-value namespace \<open>WORKFLOWS_KV\<close>;
  \<^item> \<open>WebSocketManager\<close> (opensource-pinn-platform/cloudflare/src/services/websocket-manager.js),
    the registry of sessions and the fan-out of messages to them.

  Conventions of the embedding.
  \<^item> A JavaScript number is a real number. The estimate of the remaining time is computed
    as the code computes it, every operation rounded to the nearest double (\<open>to_double\<close>).
    Elsewhere arithmetic is exact: the progress values that the orchestrator produces are
    small integers, which a double represents exactly, and no statement below reads the
    other numbers (the training metrics and the random payloads of the mock messages).
  \<^item> \<open>new Date().toISOString()\<close> reads the field \<open>clock\<close> of the world, a count of
    milliseconds; \<open>sleep\<close> advances it.
  \<^item> A stored value is the parsed workflow object; \<open>JSON.stringify\<close> and \<open>JSON.parse\<close>
    of such an object are the identity. Both writers of the namespace, the route that
    creates a workflow and \<open>updateWorkflowStatus\<close>, store such objects only.
  \<^item> What the environment decides is read from the world: whether the next operation on
    \<open>WORKFLOWS_KV\<close> throws (\<open>kv_script\<close>), whether the visualisation service and the
    results namespace throw, which sockets throw on \<open>send\<close> (\<open>broken\<close>). The values of
    \<open>Math.random()\<close> are arguments of the functions that draw them.
  \<^item> An \<open>async\<close> function returns a pair: \<open>Inl error\<close> for a thrown error (a rejected
    promise) or \<open>Inr value\<close>, and the world after it.
\<close>

subsection \<open>Data\<close>

type_synonym timestamp = nat

datatype js_error = Error (error_message: string)

record training_metrics =
  epoch :: real
  accuracy :: real
  loss :: real
  convergence :: real
  training_time :: real

text \<open>
  The workflow object as the route \<open>POST /api/v2/simulations\<close> creates it, restricted to the
  fields that the orchestrator reads or writes. \<open>metrics\<close> and \<open>estimated_remaining_time\<close>
  are absent until the first update (\<open>None\<close>). For \<open>estimated_remaining_time\<close>, \<open>None\<close>
  also stands for \<open>null\<close>, which is what \<open>JSON.stringify\<close> writes for an infinite number.
\<close>

record workflow =
  wf_id :: string
  status :: string
  progress :: real
  current_step :: string
  metrics :: "training_metrics option"
  estimated_remaining_time :: "int option"
  created_at :: timestamp
  updated_at :: timestamp

type_synonym ws = nat

record session =
  webSocket :: ws
  workflowId :: string
  connectedAt :: timestamp
  lastActivity :: timestamp
  subscriptions :: "string list option"

record status_metrics =
  sm_accuracy :: real
  sm_loss :: real
  sm_epoch :: int

record status_payload =
  sp_status :: string
  sp_progress :: real
  sp_currentStep :: string
  sp_metrics :: status_metrics

record progress_payload =
  pp_progress :: real
  pp_step :: "string option"
  pp_metrics :: training_metrics
  pp_timestamp :: timestamp

text \<open>
  The messages the manager sends. \<open>app_message type body\<close> is any other object a caller
  hands to \<open>broadcastToWorkflow\<close>.
\<close>

datatype message =
    connection_established string string
  | pong
  | workflow_status string status_payload
  | workflow_progress string progress_payload
  | app_message string string

text \<open>What goes over the wire: \<open>{...message, timestamp: new Date().toISOString()}\<close>.\<close>

type_synonym frame = "message \<times> timestamp"

datatype inbound =
    ping
  | subscribe_metrics "string list option"
  | request_status
  | other_inbound string

datatype outcome = Ok | Throws string

text \<open>
  The world: the namespace and its log of successful puts, the console, the session
  registry (a JavaScript \<open>Map\<close>, which keeps insertion order), and the frames that sockets
  accepted.
\<close>

record world =
  WORKFLOWS_KV :: "string \<rightharpoonup> workflow"
  kv_script :: "outcome list"
  puts :: "(string \<times> workflow) list"
  visualization_outcome :: outcome
  results_outcome :: outcome
  clock :: timestamp
  console :: "string list"
  sessions :: "(string \<times> session) list"
  broken :: "ws set"
  sent :: "(ws \<times> frame) list"

type_synonym 'a async = "(js_error + 'a) \<times> world"

subsection \<open>Sequencing\<close>

text \<open>\<open>await m k\<close>: a rejection of \<open>m\<close> propagates, otherwise \<open>k\<close> continues with its value.\<close>

definition await :: "'a async \<Rightarrow> ('a \<Rightarrow> world \<Rightarrow> 'b async) \<Rightarrow> 'b async" where
  "await m k = (case m of (Inl e, w) \<Rightarrow> (Inl e, w) | (Inr x, w) \<Rightarrow> k x w)"

text \<open>
  \<open>for (let i = start; i <= limit; i += inc) body\<close> with an \<open>await\<close> in the body. Every loop
  of the source has a positive constant increment; the guard on \<open>inc\<close> is what makes the
  function total.
\<close>

function for_loop :: "int \<Rightarrow> int \<Rightarrow> int \<Rightarrow> (int \<Rightarrow> world \<Rightarrow> unit async) \<Rightarrow> world \<Rightarrow> unit async" where
  "for_loop i limit inc body w =
     (if i \<le> limit \<and> 0 < inc
      then (case body i w of
              (Inl e, w') \<Rightarrow> (Inl e, w')
            | (Inr u, w') \<Rightarrow> for_loop (i + inc) limit inc body w')
      else (Inr (), w))"
  by pat_completeness auto
termination
  by (relation "measure (\<lambda>(i, limit, inc, body, w). nat (limit + 1 - i))") auto

subsection \<open>The namespace \<open>WORKFLOWS_KV\<close>\<close>

definition next_outcome :: "world \<Rightarrow> outcome \<times> world" where
  "next_outcome w =
     (case kv_script w of [] \<Rightarrow> (Ok, w) | out # rest \<Rightarrow> (out, w\<lparr>kv_script := rest\<rparr>))"

definition kv_get :: "string \<Rightarrow> world \<Rightarrow> (workflow option) async" where
  "kv_get key w =
     (case next_outcome w of
        (Ok, w') \<Rightarrow> (Inr (WORKFLOWS_KV w' key), w')
      | (Throws m, w') \<Rightarrow> (Inl (Error m), w'))"

definition kv_put :: "string \<Rightarrow> workflow \<Rightarrow> world \<Rightarrow> unit async" where
  "kv_put key v w =
     (case next_outcome w of
        (Ok, w') \<Rightarrow>
          (Inr (), w'\<lparr>WORKFLOWS_KV := (WORKFLOWS_KV w')(key \<mapsto> v), puts := puts w' @ [(key, v)]\<rparr>)
      | (Throws m, w') \<Rightarrow> (Inl (Error m), w'))"

subsection \<open>WorkflowManager\<close>

definition sleep :: "nat \<Rightarrow> world \<Rightarrow> unit async" where
  "sleep ms w = (Inr (), w\<lparr>clock := clock w + ms\<rparr>)"

text \<open>
  Arithmetic on doubles (IEEE 754 binary64). \<open>rne\<close> rounds to the nearest integer, a tie
  to the even one. \<open>to_double x\<close> is the double nearest to \<open>x\<close>, a tie to the even
  mantissa: a multiple of \<open>2 ^ e\<close>, where \<open>e\<close> is 52 below the binary exponent of \<open>x\<close>
  and at least -1074 (the subnormal numbers). The exponent is not bounded from above
  here: an operation whose rounded result reaches \<open>2 ^ 1024\<close> overflows to an infinity.
\<close>

definition rne :: "real \<Rightarrow> int" where
  "rne x =
     (let k = \<lfloor>x\<rfloor>; f = x - of_int k
      in if f < 1 / 2 then k else if 1 / 2 < f then k + 1 else if even k then k else k + 1)"

definition to_double :: "real \<Rightarrow> real" where
  "to_double x =
     (if x = 0 then 0
      else let e = max (\<lfloor>log 2 \<bar>x\<bar>\<rfloor> - 52) (- 1074)
           in of_int (rne (x / 2 powr of_int e)) * 2 powr of_int e)"

text \<open>
  The block "Calculate remaining time". \<open>progress && progress < 100\<close> is false for
  \<open>null\<close> and for \<open>0\<close>. The progress is a double, so the quotient and the difference
  are finite; the product may overflow, and then \<open>Math.round\<close> returns the infinity and
  the record is stored with \<open>null\<close>. \<open>Math.round\<close> of a finite double is exact and
  rounds a tie upwards.
\<close>

definition remaining_time :: "real option \<Rightarrow> int option" where
  "remaining_time new_progress =
     (case new_progress of
        None \<Rightarrow> Some 0
      | Some p \<Rightarrow>
          if p \<noteq> 0 \<and> p < 100
          then let elapsedRatio = to_double (p / 100);
                   remainingRatio = to_double (1 - elapsedRatio);
                   product = to_double (300 * remainingRatio)
               in if 2 ^ 1024 \<le> \<bar>product\<bar> then None else Some \<lfloor>product + 1 / 2\<rfloor>
          else Some 0)"

text \<open>The body of the \<open>try\<close> of \<open>updateWorkflowStatus\<close>.\<close>

definition updateWorkflowStatus_try ::
  "string \<Rightarrow> string \<Rightarrow> real option \<Rightarrow> string option \<Rightarrow> training_metrics option \<Rightarrow> world \<Rightarrow> unit async" where
  "updateWorkflowStatus_try workflow_id new_status new_progress step new_metrics w =
     await (kv_get workflow_id w) (\<lambda>workflowData w1.
       case workflowData of
         None \<Rightarrow> (Inr (), w1)
       | Some wf0 \<Rightarrow>
           let wf1 = wf0\<lparr>status := new_status, updated_at := clock w1\<rparr>;
               wf2 = (case new_progress of None \<Rightarrow> wf1 | Some p \<Rightarrow> wf1\<lparr>progress := p\<rparr>);
               wf3 = (case step of None \<Rightarrow> wf2 | Some s \<Rightarrow> wf2\<lparr>current_step := s\<rparr>);
               wf4 = (case new_metrics of None \<Rightarrow> wf3 | Some m \<Rightarrow> wf3\<lparr>metrics := Some m\<rparr>);
               wf5 = wf4\<lparr>estimated_remaining_time := remaining_time new_progress\<rparr>
           in kv_put workflow_id wf5 w1)"

definition updateWorkflowStatus ::
  "string \<Rightarrow> string \<Rightarrow> real option \<Rightarrow> string option \<Rightarrow> training_metrics option \<Rightarrow> world \<Rightarrow> unit async" where
  "updateWorkflowStatus workflow_id new_status new_progress step new_metrics w =
     (case updateWorkflowStatus_try workflow_id new_status new_progress step new_metrics w of
        (Inl e, w') \<Rightarrow>
          (Inr (), w'\<lparr>console := console w' @ [''Failed to update workflow status: '' @ error_message e]\<rparr>)
      | (Inr u, w') \<Rightarrow> (Inr u, w'))"

definition simulateProblemAnalysis :: "string \<Rightarrow> world \<Rightarrow> unit async" where
  "simulateProblemAnalysis workflow_id =
     for_loop 10 30 5 (\<lambda>p w.
       await (updateWorkflowStatus workflow_id ''processing'' (Some (of_int p)) (Some ''problem_analysis'') None w)
         (\<lambda>_. sleep 200))"

definition simulateMeshGeneration :: "string \<Rightarrow> world \<Rightarrow> unit async" where
  "simulateMeshGeneration workflow_id =
     for_loop 30 50 5 (\<lambda>p w.
       await (updateWorkflowStatus workflow_id ''processing'' (Some (of_int p)) (Some ''mesh_generation'') None w)
         (\<lambda>_. sleep 200))"

definition training_metrics_at :: "real \<Rightarrow> training_metrics" where
  "training_metrics_at p =
     \<lparr>epoch = (p - 50) * 100,
      accuracy = min (1 / 2 + (p - 50) / 60) (99 / 100),
      loss = max ((1 / 10) * (81 - p) / 31) (1 / 1000),
      convergence = (p - 50) / 31,
      training_time = (p - 50) * 2\<rparr>"

definition simulatePINNTraining :: "string \<Rightarrow> world \<Rightarrow> unit async" where
  "simulatePINNTraining workflow_id =
     for_loop 50 80 2 (\<lambda>p w.
       await (updateWorkflowStatus workflow_id ''processing'' (Some (of_int p)) (Some ''pinn_training'')
                (Some (training_metrics_at (of_int p))) w)
         (\<lambda>_. sleep 100))"

definition simulateModelValidation :: "string \<Rightarrow> world \<Rightarrow> unit async" where
  "simulateModelValidation workflow_id =
     for_loop 80 90 2 (\<lambda>p w.
       await (updateWorkflowStatus workflow_id ''processing'' (Some (of_int p)) (Some ''model_validation'') None w)
         (\<lambda>_. sleep 100))"

text \<open>
  The two calls of \<open>generateResultsAndVisualization\<close> that leave the class:
  \<open>visualization3D.createVisualization\<close> and \<open>RESULTS_KV.put\<close>. Each returns or throws as
  the world says. \<open>generateSampleResults\<close> and \<open>generateAnalysis\<close> build the result object
  from the request and have no effect on the world.
\<close>

definition createVisualization :: "world \<Rightarrow> unit async" where
  "createVisualization w =
     (case visualization_outcome w of Ok \<Rightarrow> (Inr (), w) | Throws m \<Rightarrow> (Inl (Error m), w))"

definition results_put :: "string \<Rightarrow> world \<Rightarrow> unit async" where
  "results_put key w =
     (case results_outcome w of Ok \<Rightarrow> (Inr (), w) | Throws m \<Rightarrow> (Inl (Error m), w))"

definition generateResultsAndVisualization :: "string \<Rightarrow> world \<Rightarrow> unit async" where
  "generateResultsAndVisualization workflow_id w =
     await (updateWorkflowStatus workflow_id ''processing'' (Some 90) (Some ''generating_results'') None w) (\<lambda>_ w.
     await (updateWorkflowStatus workflow_id ''processing'' (Some 95) (Some ''creating_visualization'') None w) (\<lambda>_ w.
     await (createVisualization w) (\<lambda>_ w.
     await (results_put workflow_id w) (\<lambda>_ w.
     updateWorkflowStatus workflow_id ''processing'' (Some 100) (Some ''completed'') None w))))"

text \<open>The body of the \<open>try\<close> of \<open>processWorkflow\<close>.\<close>

definition processWorkflow_try :: "string \<Rightarrow> world \<Rightarrow> unit async" where
  "processWorkflow_try workflow_id w =
     await (updateWorkflowStatus workflow_id ''processing'' (Some 10) (Some ''initializing'') None w) (\<lambda>_ w.
     await (simulateProblemAnalysis workflow_id w) (\<lambda>_ w.
     await (simulateMeshGeneration workflow_id w) (\<lambda>_ w.
     await (simulatePINNTraining workflow_id w) (\<lambda>_ w.
     await (simulateModelValidation workflow_id w) (\<lambda>_ w.
     await (generateResultsAndVisualization workflow_id w) (\<lambda>_ w.
     updateWorkflowStatus workflow_id ''completed'' (Some 100) (Some ''finished'') None w))))))"

text \<open>\<open>processWorkflow\<close>: the \<open>catch\<close> records the failure and throws the error again.\<close>

definition processWorkflow :: "string \<Rightarrow> world \<Rightarrow> unit async" where
  "processWorkflow workflow_id w =
     (case processWorkflow_try workflow_id w of
        (Inl e, w1) \<Rightarrow>
          await (updateWorkflowStatus workflow_id ''failed'' None (Some (''error: '' @ error_message e)) None w1)
            (\<lambda>_ w2. (Inl e, w2))
      | (Inr u, w1) \<Rightarrow> (Inr u, w1))"

subsection \<open>WebSocketManager\<close>

text \<open>\<open>webSocket.send\<close>: a broken socket throws, any other accepts the frame.\<close>

definition webSocket_send :: "ws \<Rightarrow> frame \<Rightarrow> world \<Rightarrow> unit async" where
  "webSocket_send sock f w =
     (if sock \<in> broken w then (Inl (Error ''WebSocket send failed''), w)
      else (Inr (), w\<lparr>sent := sent w @ [(sock, f)]\<rparr>))"

definition sendMessage :: "ws \<Rightarrow> message \<Rightarrow> world \<Rightarrow> unit async" where
  "sendMessage sock msg w =
     (case webSocket_send sock (msg, clock w) w of
        (Inl e, w') \<Rightarrow>
          (Inr (), w'\<lparr>console := console w' @ [''Failed to send WebSocket message: '' @ error_message e]\<rparr>)
      | (Inr u, w') \<Rightarrow> (Inr u, w'))"

text \<open>
  \<open>sendWorkflowStatus\<close> sends a mock status; the four numbers are its four draws of
  \<open>Math.random()\<close>, in the order of the object literal.
\<close>

definition sendWorkflowStatus :: "ws \<Rightarrow> string \<Rightarrow> real \<times> real \<times> real \<times> real \<Rightarrow> world \<Rightarrow> unit async" where
  "sendWorkflowStatus sock workflow_id rnd w =
     (case rnd of (r1, r2, r3, r4) \<Rightarrow>
        (case sendMessage sock
                (workflow_status workflow_id
                   \<lparr>sp_status = ''processing'',
                    sp_progress = r1 * 100,
                    sp_currentStep = ''pinn_training'',
                    sp_metrics = \<lparr>sm_accuracy = 85 / 100 + r2 * (1 / 10),
                                  sm_loss = (1 / 100) * r3,
                                  sm_epoch = \<lfloor>r4 * 5000\<rfloor>\<rparr>\<rparr>) w of
           (Inl e, w') \<Rightarrow>
             (Inr (), w'\<lparr>console := console w' @ [''Failed to send workflow status: '' @ error_message e]\<rparr>)
         | (Inr u, w') \<Rightarrow> (Inr u, w')))"

text \<open>
  \<open>handleSession\<close>. The session id is what \<open>generateSessionId()\<close> returned. The three
  listeners and the interval it registers run later, as \<open>handleMessage\<close>, \<open>on_close\<close>,
  \<open>on_error\<close> and \<open>periodic_update\<close>.
\<close>

definition handleSession :: "ws \<Rightarrow> string \<Rightarrow> string \<Rightarrow> world \<Rightarrow> unit async" where
  "handleSession sock workflow_id sessionId w =
     (let w1 = w\<lparr>sessions :=
                  AList.update sessionId
                    \<lparr>webSocket = sock, workflowId = workflow_id, connectedAt = clock w,
                     lastActivity = clock w, subscriptions = None\<rparr>
                    (sessions w)\<rparr>
      in await (sendMessage sock (connection_established sessionId workflow_id) w1)
           (\<lambda>_ w2. (Inr (), w2)))"

definition handleMessage :: "string \<Rightarrow> inbound \<Rightarrow> real \<times> real \<times> real \<times> real \<Rightarrow> world \<Rightarrow> unit async" where
  "handleMessage sessionId msg rnd w =
     (case map_of (sessions w) sessionId of
        None \<Rightarrow> (Inr (), w)
      | Some s0 \<Rightarrow>
          let s1 = s0\<lparr>lastActivity := clock w\<rparr>;
              w1 = w\<lparr>sessions := AList.update sessionId s1 (sessions w)\<rparr>
          in (case msg of
                ping \<Rightarrow> sendMessage (webSocket s1) pong w1
              | subscribe_metrics m \<Rightarrow>
                  (Inr (), w1\<lparr>sessions :=
                     AList.update sessionId
                       (s1\<lparr>subscriptions := Some (case m of None \<Rightarrow> [] | Some l \<Rightarrow> l)\<rparr>)
                       (sessions w1)\<rparr>)
              | request_status \<Rightarrow> sendWorkflowStatus (webSocket s1) (workflowId s1) rnd w1
              | other_inbound t \<Rightarrow> (Inr (), w1)))"

text \<open>The listeners for \<open>close\<close> and \<open>error\<close>.\<close>

definition on_close :: "string \<Rightarrow> world \<Rightarrow> world" where
  "on_close sessionId w = w\<lparr>sessions := AList.delete sessionId (sessions w)\<rparr>"

definition on_error :: "string \<Rightarrow> string \<Rightarrow> world \<Rightarrow> world" where
  "on_error sessionId err w =
     w\<lparr>console := console w @ [''WebSocket error: '' @ err],
       sessions := AList.delete sessionId (sessions w)\<rparr>"

definition getRandomStep :: "real \<Rightarrow> string option" where
  "getRandomStep r =
     (let steps = [''problem_analysis'', ''mesh_generation'', ''pinn_training'',
                   ''model_validation'', ''results_generation''];
          i = \<lfloor>r * of_nat (length steps)\<rfloor>
      in if 0 \<le> i \<and> i < int (length steps) then Some (steps ! nat i) else None)"

definition generateRandomMetrics :: "real \<times> real \<times> real \<times> real \<times> real \<Rightarrow> training_metrics" where
  "generateRandomMetrics rnd =
     (case rnd of (r1, r2, r3, r4, r5) \<Rightarrow>
        \<lparr>epoch = of_int \<lfloor>r5 * 10000\<rfloor>,
         accuracy = 8 / 10 + r1 * (19 / 100),
         loss = r2 * (1 / 10),
         convergence = r3,
         training_time = of_int \<lfloor>r4 * 300\<rfloor>\<rparr>)"

text \<open>
  The callback of the interval of \<open>startPeriodicUpdates\<close>, run every five seconds for one
  session: the draw for the progress, the draw for the step, the five draws for the
  metrics. With the session gone it only clears the interval.
\<close>

definition periodic_update ::
  "string \<Rightarrow> string \<Rightarrow> real \<Rightarrow> real \<Rightarrow> real \<times> real \<times> real \<times> real \<times> real \<Rightarrow> world \<Rightarrow> unit async" where
  "periodic_update sessionId workflow_id r_progress r_step r_metrics w =
     (case map_of (sessions w) sessionId of
        None \<Rightarrow> (Inr (), w)
      | Some s \<Rightarrow>
          sendMessage (webSocket s)
            (workflow_progress workflow_id
               \<lparr>pp_progress = min 100 (r_progress * 100),
                pp_step = getRandomStep r_step,
                pp_metrics = generateRandomMetrics r_metrics,
                pp_timestamp = clock w\<rparr>) w)"

text \<open>
  \<open>broadcastToWorkflow\<close>. The loop calls \<open>sendMessage\<close> for every matching session and
  collects the promises; \<open>Promise.all\<close> rejects with the first rejection among them.
\<close>

fun broadcast_loop :: "(string \<times> session) list \<Rightarrow> string \<Rightarrow> message \<Rightarrow> world \<Rightarrow> (js_error + unit) list \<times> world" where
  "broadcast_loop [] workflow_id msg w = ([], w)"
| "broadcast_loop ((sessionId, s) # rest) workflow_id msg w =
     (if workflowId s = workflow_id
      then (case sendMessage (webSocket s) msg w of
              (p, w1) \<Rightarrow> (case broadcast_loop rest workflow_id msg w1 of
                            (promises, w2) \<Rightarrow> (p # promises, w2)))
      else broadcast_loop rest workflow_id msg w)"

fun Promise_all :: "(js_error + unit) list \<Rightarrow> js_error + unit" where
  "Promise_all [] = Inr ()"
| "Promise_all (Inl e # ps) = Inl e"
| "Promise_all (Inr u # ps) = Promise_all ps"

definition broadcastToWorkflow :: "string \<Rightarrow> message \<Rightarrow> world \<Rightarrow> unit async" where
  "broadcastToWorkflow workflow_id msg w =
     (case broadcast_loop (sessions w) workflow_id msg w of
        (promises, w') \<Rightarrow> (Promise_all promises, w'))"

subsection \<open>Observations\<close>

text \<open>The messages a socket has accepted, oldest first.\<close>

definition received :: "ws \<Rightarrow> world \<Rightarrow> message list" where
  "received sock w = map (fst \<circ> snd) (filter (\<lambda>x. fst x = sock) (sent w))"

text \<open>The status and the progress a message shows to its reader, when it shows one.\<close>

fun shown_status :: "message \<Rightarrow> string option" where
  "shown_status (workflow_status i p) = Some (sp_status p)"
| "shown_status m = None"

fun shown_progress :: "message \<Rightarrow> real option" where
  "shown_progress (workflow_status i p) = Some (sp_progress p)"
| "shown_progress (workflow_progress i p) = Some (pp_progress p)"
| "shown_progress m = None"

text \<open>The progress values of the records put under a key, oldest first.\<close>

definition persisted_progress :: "string \<Rightarrow> world \<Rightarrow> real list" where
  "persisted_progress key w = map (progress \<circ> snd) (filter (\<lambda>x. fst x = key) (puts w))"

text \<open>A sequence of calls of \<open>broadcastToWorkflow\<close>, one after the other.\<close>

fun broadcast_all :: "(string \<times> message) list \<Rightarrow> world \<Rightarrow> world" where
  "broadcast_all [] w = w"
| "broadcast_all ((workflow_id, msg) # calls) w =
     broadcast_all calls (snd (broadcastToWorkflow workflow_id msg w))"

subsection \<open>Vocabulary of the proofs\<close>

text \<open>The record that an update writes over the stored record r0.\<close>

definition updated :: "workflow \<Rightarrow> string \<Rightarrow> real option \<Rightarrow> string option \<Rightarrow> training_metrics option \<Rightarrow> timestamp \<Rightarrow> workflow" where
  "updated r0 st np step nm t =
     r0\<lparr>status := st, updated_at := t,
        progress := (case np of None \<Rightarrow> progress r0 | Some p \<Rightarrow> p),
        current_step := (case step of None \<Rightarrow> current_step r0 | Some s \<Rightarrow> s),
        metrics := (case nm of None \<Rightarrow> metrics r0 | Some m \<Rightarrow> Some m),
        estimated_remaining_time := remaining_time np\<rparr>"

text \<open>
  A stretch of a run: from \<open>w\<close> to \<open>w'\<close> the log grew by records of status
  \<open>processing\<close> under the key \<open>wid\<close>, their progress between \<open>lo\<close> and \<open>hi\<close> and
  never decreasing; the namespace holds the last of them; the manager's side of the world
  and the outcomes of the collaborators are as before.
\<close>

definition segment :: "string \<Rightarrow> real \<Rightarrow> real \<Rightarrow> world \<Rightarrow> world \<Rightarrow> bool" where
  "segment wid lo hi w w' \<longleftrightarrow>
     (\<exists>ps. puts w' = puts w @ ps
        \<and> (\<forall>x \<in> set ps. fst x = wid \<and> status (snd x) = ''processing''
                \<and> lo \<le> progress (snd x) \<and> progress (snd x) \<le> hi)
        \<and> sorted (map (progress \<circ> snd) ps)
        \<and> (if ps = [] then WORKFLOWS_KV w' = WORKFLOWS_KV w
            else WORKFLOWS_KV w' wid = Some (snd (last ps)))
        \<and> sent w' = sent w \<and> sessions w' = sessions w \<and> broken w' = broken w
        \<and> visualization_outcome w' = visualization_outcome w
        \<and> results_outcome w' = results_outcome w)"

text \<open>The frames that a broadcast of \<open>msg\<close> to \<open>wid\<close> adds, for the sessions \<open>ss\<close>.\<close>

definition fanout :: "(string \<times> session) list \<Rightarrow> string \<Rightarrow> message \<Rightarrow> world \<Rightarrow> (ws \<times> frame) list" where
  "fanout ss wid msg w =
     map (\<lambda>x. (webSocket (snd x), (msg, clock w)))
       (filter (\<lambda>x. workflowId (snd x) = wid \<and> webSocket (snd x) \<notin> broken w) ss)"

subsection \<open>Example worlds\<close>

text \<open>The object that the route \<open>POST /api/v2/simulations\<close> stores before it starts the run.\<close>

definition initial_workflow :: "string \<Rightarrow> timestamp \<Rightarrow> workflow" where
  "initial_workflow workflow_id t =
     \<lparr>wf_id = workflow_id, status = ''initiated'', progress = 0,
      current_step = ''use_case_generation'', metrics = None,
      estimated_remaining_time = None, created_at = t, updated_at = t\<rparr>"

definition empty_world :: world where
  "empty_world =
     \<lparr>WORKFLOWS_KV = Map.empty, kv_script = [], puts = [], visualization_outcome = Ok,
      results_outcome = Ok, clock = 0, console = [], sessions = [], broken = {}, sent = []\<rparr>"

text \<open>A healthy store that holds the fresh workflow \<open>w1\<close>.\<close>

definition world_submitted :: world where
  "world_submitted = empty_world\<lparr>WORKFLOWS_KV := [''w1'' \<mapsto> initial_workflow ''w1'' 0]\<rparr>"

text \<open>The same with one session on socket 1 that observes \<open>w1\<close>.\<close>

definition world_observed :: world where
  "world_observed =
     world_submitted\<lparr>sessions :=
       [(''session_a'', \<lparr>webSocket = 1, workflowId = ''w1'', connectedAt = 0, lastActivity = 0,
                         subscriptions = None\<rparr>)]\<rparr>"

text \<open>A store in which the workflow \<open>w1\<close> has completed.\<close>

definition world_completed :: world where
  "world_completed =
     empty_world\<lparr>WORKFLOWS_KV :=
       [''w1'' \<mapsto> (initial_workflow ''w1'' 0)\<lparr>status := ''completed'', progress := 100,
                      current_step := ''finished'', estimated_remaining_time := Some 0\<rparr>]\<rparr>"

text \<open>
  Three sessions: \<open>session_a\<close> and \<open>session_b\<close> observe \<open>w1\<close> on the sockets 1 and 2,
  \<open>session_c\<close> observes \<open>w2\<close> on socket 3.
\<close>

definition world_three :: world where
  "world_three =
     empty_world\<lparr>sessions :=
       [(''session_a'', \<lparr>webSocket = 1, workflowId = ''w1'', connectedAt = 0, lastActivity = 0,
                         subscriptions = None\<rparr>),
        (''session_b'', \<lparr>webSocket = 2, workflowId = ''w1'', connectedAt = 0, lastActivity = 0,
                         subscriptions = None\<rparr>),
        (''session_c'', \<lparr>webSocket = 3, workflowId = ''w2'', connectedAt = 0, lastActivity = 0,
                         subscriptions = None\<rparr>)]\<rparr>"

text \<open>A store whose first and third operation throw.\<close>

definition world_faulty :: world where
  "world_faulty = world_submitted\<lparr>kv_script := [Throws ''KV unavailable'', Ok, Throws ''KV unavailable'']\<rparr>"

text \<open>The world \<open>world_observed\<close> in which the visualisation service throws.\<close>

definition world_boom :: world where
  "world_boom = world_observed\<lparr>visualization_outcome := Throws ''boom''\<rparr>"

text \<open>A socket that is broken: the world \<open>world_three\<close> with socket 1 throwing on send.\<close>

definition world_three_broken :: world where
  "world_three_broken = world_three\<lparr>broken := {1}\<rparr>"

text \<open>
  The world \<open>world_observed\<close> after two runs of the timer of \<open>session_a\<close>, which drew 7/10
  and then 2/10 for the progress, and after the run of the workflow \<open>w1\<close>.
\<close>

definition world_ticked :: world where
  "world_ticked =
     snd (processWorkflow ''w1''
       (snd (periodic_update ''session_a'' ''w1'' (2 / 10) 0 (0, 0, 0, 0, 0)
         (snd (periodic_update ''session_a'' ''w1'' (7 / 10) 0 (0, 0, 0, 0, 0) world_observed)))))"

section \<open>Properties\<close>

subsection \<open>One update of the store\<close>

lemma next_outcome_eq:
  "next_outcome w = ((case kv_script w of [] \<Rightarrow> Ok | out # rest \<Rightarrow> out), w\<lparr>kv_script := tl (kv_script w)\<rparr>)"
  by (cases "kv_script w") (simp_all add: next_outcome_def)

lemma updateWorkflowStatus_cases:
  "(\<exists>ks cs. snd (updateWorkflowStatus wid st np step nm w) = w\<lparr>kv_script := ks, console := cs\<rparr>) \<or>
   (\<exists>r0 ks. WORKFLOWS_KV w wid = Some r0 \<and>
      snd (updateWorkflowStatus wid st np step nm w) =
        w\<lparr>kv_script := ks,
          WORKFLOWS_KV := (WORKFLOWS_KV w)(wid \<mapsto> updated r0 st np step nm (clock w)),
          puts := puts w @ [(wid, updated r0 st np step nm (clock w))]\<rparr>)"
proof -
  define o1 where "o1 = (case kv_script w of [] \<Rightarrow> Ok | out # rest \<Rightarrow> out)"
  define k1 where "k1 = tl (kv_script w)"
  define o2 where "o2 = (case k1 of [] \<Rightarrow> Ok | out # rest \<Rightarrow> out)"
  have get: "kv_get wid w = (case o1 of Ok \<Rightarrow> (Inr (WORKFLOWS_KV w wid), w\<lparr>kv_script := k1\<rparr>)
                              | Throws m \<Rightarrow> (Inl (Error m), w\<lparr>kv_script := k1\<rparr>))"
    by (simp add: kv_get_def next_outcome_eq o1_def k1_def split: outcome.splits)
  have put: "kv_put wid v (w\<lparr>kv_script := k1\<rparr>) =
       (case o2 of Ok \<Rightarrow> (Inr (), w\<lparr>kv_script := tl k1, WORKFLOWS_KV := (WORKFLOWS_KV w)(wid \<mapsto> v), puts := puts w @ [(wid, v)]\<rparr>)
                 | Throws m \<Rightarrow> (Inl (Error m), w\<lparr>kv_script := tl k1\<rparr>))" for v
    by (simp add: kv_put_def next_outcome_eq o2_def split: outcome.splits)
  show ?thesis
  proof (cases o1)
    case (Throws m)
    then have "snd (updateWorkflowStatus wid st np step nm w) =
        w\<lparr>kv_script := k1, console := console w @ [''Failed to update workflow status: '' @ m]\<rparr>"
      by (simp add: updateWorkflowStatus_def updateWorkflowStatus_try_def await_def get)
    then show ?thesis by blast
  next
    case Ok
    show ?thesis
    proof (cases "WORKFLOWS_KV w wid")
      case None
      with Ok have "snd (updateWorkflowStatus wid st np step nm w) = w\<lparr>kv_script := k1, console := console w\<rparr>"
        by (simp add: updateWorkflowStatus_def updateWorkflowStatus_try_def await_def get)
      then show ?thesis by blast
    next
      case (Some r0)
      show ?thesis
      proof (cases o2)
        case Ok2: Ok
        with Ok Some have "snd (updateWorkflowStatus wid st np step nm w) =
            w\<lparr>kv_script := tl k1,
              WORKFLOWS_KV := (WORKFLOWS_KV w)(wid \<mapsto> updated r0 st np step nm (clock w)),
              puts := puts w @ [(wid, updated r0 st np step nm (clock w))]\<rparr>"
          by (simp add: updateWorkflowStatus_def updateWorkflowStatus_try_def await_def get put
              updated_def Let_def split: option.splits)
        with Some show ?thesis by blast
      next
        case (Throws m)
        with Ok Some have "snd (updateWorkflowStatus wid st np step nm w) =
            w\<lparr>kv_script := tl k1, console := console w @ [''Failed to update workflow status: '' @ m]\<rparr>"
          by (simp add: updateWorkflowStatus_def updateWorkflowStatus_try_def await_def get put Let_def)
        then show ?thesis by blast
      qed
    qed
  qed
qed

subsection \<open>The rounding of the estimate\<close>









subsection \<open>The run as a sequence of stretches\<close>

lemma updateWorkflowStatus_returns:
  "fst (updateWorkflowStatus wid st np step nm w) = Inr ()"
  by (simp add: updateWorkflowStatus_def split: prod.splits sum.splits)

lemma updateWorkflowStatus_pair:
  "updateWorkflowStatus wid st np step nm w = (Inr (), snd (updateWorkflowStatus wid st np step nm w))"
  using updateWorkflowStatus_returns[of wid st np step nm w] by (simp add: prod_eq_iff)

lemma segment_refl: "segment wid lo hi w w"
  unfolding segment_def by (rule exI[of _ "[]"]) simp

lemma segment_mono:
  assumes "segment wid lo hi w w'" "lo' \<le> lo" "hi \<le> hi'"
  shows "segment wid lo' hi' w w'"
proof -
  from assms(1) obtain ps where ps: "puts w' = puts w @ ps"
    "\<forall>x \<in> set ps. fst x = wid \<and> status (snd x) = ''processing'' \<and> lo \<le> progress (snd x) \<and> progress (snd x) \<le> hi"
    "sorted (map (progress \<circ> snd) ps)"
    "if ps = [] then WORKFLOWS_KV w' = WORKFLOWS_KV w else WORKFLOWS_KV w' wid = Some (snd (last ps))"
    "sent w' = sent w \<and> sessions w' = sessions w \<and> broken w' = broken w
        \<and> visualization_outcome w' = visualization_outcome w \<and> results_outcome w' = results_outcome w"
    unfolding segment_def by blast
  from ps(2) assms(2,3) have "\<forall>x \<in> set ps. fst x = wid \<and> status (snd x) = ''processing'' \<and> lo' \<le> progress (snd x) \<and> progress (snd x) \<le> hi'"
    by fastforce
  with ps show ?thesis unfolding segment_def by blast
qed

lemma segment_trans:
  assumes a: "segment wid lo mid w w1" and b: "segment wid mid hi w1 w2"
    and le: "lo \<le> mid" "mid \<le> hi"
  shows "segment wid lo hi w w2"
proof -
  from a obtain ps where ps: "puts w1 = puts w @ ps"
    "\<forall>x \<in> set ps. fst x = wid \<and> status (snd x) = ''processing'' \<and> lo \<le> progress (snd x) \<and> progress (snd x) \<le> mid"
    "sorted (map (progress \<circ> snd) ps)"
    "if ps = [] then WORKFLOWS_KV w1 = WORKFLOWS_KV w else WORKFLOWS_KV w1 wid = Some (snd (last ps))"
    "sent w1 = sent w \<and> sessions w1 = sessions w \<and> broken w1 = broken w
        \<and> visualization_outcome w1 = visualization_outcome w \<and> results_outcome w1 = results_outcome w"
    unfolding segment_def by blast
  from b obtain qs where qs: "puts w2 = puts w1 @ qs"
    "\<forall>x \<in> set qs. fst x = wid \<and> status (snd x) = ''processing'' \<and> mid \<le> progress (snd x) \<and> progress (snd x) \<le> hi"
    "sorted (map (progress \<circ> snd) qs)"
    "if qs = [] then WORKFLOWS_KV w2 = WORKFLOWS_KV w1 else WORKFLOWS_KV w2 wid = Some (snd (last qs))"
    "sent w2 = sent w1 \<and> sessions w2 = sessions w1 \<and> broken w2 = broken w1
        \<and> visualization_outcome w2 = visualization_outcome w1 \<and> results_outcome w2 = results_outcome w1"
    unfolding segment_def by blast
  have 1: "puts w2 = puts w @ (ps @ qs)" using ps(1) qs(1) by simp
  have 2: "\<forall>x \<in> set (ps @ qs). fst x = wid \<and> status (snd x) = ''processing'' \<and> lo \<le> progress (snd x) \<and> progress (snd x) \<le> hi"
    using ps(2) qs(2) le by fastforce
  have 3: "sorted (map (progress \<circ> snd) (ps @ qs))"
    using ps(2,3) qs(2,3) by (fastforce simp: sorted_append)
  have 4: "if ps @ qs = [] then WORKFLOWS_KV w2 = WORKFLOWS_KV w else WORKFLOWS_KV w2 wid = Some (snd (last (ps @ qs)))"
    using ps(4) qs(4) by (cases "qs = []") auto
  have 5: "sent w2 = sent w \<and> sessions w2 = sessions w \<and> broken w2 = broken w
        \<and> visualization_outcome w2 = visualization_outcome w \<and> results_outcome w2 = results_outcome w"
    using ps(5) qs(5) by simp
  show ?thesis unfolding segment_def using 1 2 3 4 5 by blast
qed

lemma segment_update:
  "segment wid p p w (snd (updateWorkflowStatus wid ''processing'' (Some p) step nm w))"
proof -
  let ?w' = "snd (updateWorkflowStatus wid ''processing'' (Some p) step nm w)"
  from updateWorkflowStatus_cases[of wid "''processing''" "Some p" step nm w]
  consider (skip) ks cs where "?w' = w\<lparr>kv_script := ks, console := cs\<rparr>"
    | (put) r0 ks where "WORKFLOWS_KV w wid = Some r0"
        "?w' = w\<lparr>kv_script := ks,
          WORKFLOWS_KV := (WORKFLOWS_KV w)(wid \<mapsto> updated r0 ''processing'' (Some p) step nm (clock w)),
          puts := puts w @ [(wid, updated r0 ''processing'' (Some p) step nm (clock w))]\<rparr>"
    by blast
  then show ?thesis
  proof cases
    case skip
    then show ?thesis unfolding segment_def by (intro exI[of _ "[]"]) simp
  next
    case put
    show ?thesis unfolding segment_def
      by (rule exI[of _ "[(wid, updated r0 ''processing'' (Some p) step nm (clock w))]"])
        (simp add: put(2) updated_def)
  qed
qed

lemma segment_sleep: "segment wid lo hi w (snd (sleep ms w))"
  unfolding segment_def by (rule exI[of _ "[]"]) (simp add: sleep_def)

lemma segment_update_sleep:
  "segment wid p p w
     (snd (await (updateWorkflowStatus wid ''processing'' (Some p) step nm w) (\<lambda>_. sleep ms)))"
proof -
  define w1 where "w1 = snd (updateWorkflowStatus wid ''processing'' (Some p) step nm w)"
  have u: "updateWorkflowStatus wid ''processing'' (Some p) step nm w = (Inr (), w1)"
    unfolding w1_def by (rule updateWorkflowStatus_pair)
  have "segment wid p p w w1" using segment_update[of wid p w step nm] u by simp
  moreover have "segment wid p p w1 (snd (sleep ms w1))" by (rule segment_sleep)
  ultimately have "segment wid p p w (snd (sleep ms w1))" by (rule segment_trans) simp_all
  then show ?thesis by (simp add: await_def u)
qed

declare for_loop.simps [simp del]

lemma for_loop_returns:
  "(\<And>j v. fst (body j v) = Inr ()) \<Longrightarrow> fst (for_loop i limit inc body w) = Inr ()"
proof (induction i limit inc body w rule: for_loop.induct)
  case (1 i limit inc body w)
  show ?case
  proof (cases "i \<le> limit \<and> 0 < inc")
    case True
    have b: "body i w = (Inr (), snd (body i w))"
      using "1.prems"[of i w] by (simp add: prod_eq_iff)
    have "for_loop i limit inc body w = for_loop (i + inc) limit inc body (snd (body i w))"
      using True by (subst for_loop.simps, subst b) simp
    then show ?thesis using "1.IH"[OF True b[symmetric] refl "1.prems"] by simp
  next
    case False
    then show ?thesis by (subst for_loop.simps) auto
  qed
qed

lemma for_loop_segment:
  "(\<And>j v. fst (body j v) = Inr ()) \<Longrightarrow>
   (\<And>j v. segment wid (of_int j) (of_int j) v (snd (body j v))) \<Longrightarrow>
   i \<le> limit \<Longrightarrow>
   segment wid (of_int i) (of_int limit) w (snd (for_loop i limit inc body w))"
proof (induction i limit inc body w rule: for_loop.induct)
  case (1 i limit inc body w)
  note ret = "1.prems"(1) and seg = "1.prems"(2) and le = "1.prems"(3)
  show ?case
  proof (cases "0 < inc")
    case False
    then have "for_loop i limit inc body w = (Inr (), w)" by (subst for_loop.simps) simp
    then show ?thesis by (simp add: segment_refl)
  next
    case True
    with le have guard: "i \<le> limit \<and> 0 < inc" by simp
    define w1 where "w1 = snd (body i w)"
    have b: "body i w = (Inr (), w1)"
      using ret[of i w] by (simp add: prod_eq_iff w1_def)
    have unfold: "for_loop i limit inc body w = for_loop (i + inc) limit inc body w1"
      using guard by (subst for_loop.simps, subst b) simp
    have s1: "segment wid (of_int i) (of_int i) w w1"
      using seg[of i w] by (simp add: w1_def)
    show ?thesis
    proof (cases "i + inc \<le> limit")
      case le': True
      have s2: "segment wid (of_int (i + inc)) (of_int limit) w1 (snd (for_loop (i + inc) limit inc body w1))"
        by (rule "1.IH"[OF guard b[symmetric] refl ret seg le'])
      have s1': "segment wid (of_int i) (of_int (i + inc)) w w1"
        by (rule segment_mono[OF s1]) (use True in simp_all)
      have "segment wid (of_int i) (of_int limit) w (snd (for_loop (i + inc) limit inc body w1))"
        by (rule segment_trans[OF s1' s2]) (use True le' in simp_all)
      then show ?thesis by (simp only: unfold)
    next
      case False
      then have "for_loop (i + inc) limit inc body w1 = (Inr (), w1)"
        by (subst for_loop.simps) simp
      moreover have "segment wid (of_int i) (of_int limit) w w1"
        by (rule segment_mono[OF s1]) (use le in simp_all)
      ultimately show ?thesis by (simp only: unfold snd_conv)
    qed
  qed
qed

lemma await_segment:
  assumes "segment wid lo mid w (snd m)"
    and "\<And>x v. segment wid mid hi v (snd (k x v))"
    and "lo \<le> mid" "mid \<le> hi"
  shows "segment wid lo hi w (snd (await m k))"
proof (cases m)
  case (Pair r w1)
  show ?thesis
  proof (cases r)
    case (Inl e)
    have "segment wid lo hi w w1"
      by (rule segment_mono[of wid lo mid]) (use Pair assms(1,3,4) in simp_all)
    with Pair Inl show ?thesis by (simp add: await_def)
  next
    case (Inr x)
    have "segment wid lo hi w (snd (k x w1))"
      by (rule segment_trans[of wid lo mid w w1]) (use assms(1) assms(2)[of w1 x] assms(3,4) Pair in simp_all)
    with Pair Inr show ?thesis by (simp add: await_def)
  qed
qed

lemma await_returns:
  "fst m = Inr () \<Longrightarrow> fst (k () (snd m)) = Inr () \<Longrightarrow> fst (await m k) = Inr ()"
  by (cases m) (simp add: await_def)

lemma step_body_returns:
  "fst (await (updateWorkflowStatus wid st np step nm w) (\<lambda>_. sleep ms)) = Inr ()"
  by (subst updateWorkflowStatus_pair) (simp add: await_def sleep_def)

lemma simulateProblemAnalysis_segment:
  "segment wid 10 30 w (snd (simulateProblemAnalysis wid w))"
proof -
  have "segment wid (of_int 10) (of_int 30) w (snd (simulateProblemAnalysis wid w))"
    unfolding simulateProblemAnalysis_def
    by (rule for_loop_segment) (simp_all add: step_body_returns segment_update_sleep)
  then show ?thesis by simp
qed

lemma simulateMeshGeneration_segment:
  "segment wid 30 50 w (snd (simulateMeshGeneration wid w))"
proof -
  have "segment wid (of_int 30) (of_int 50) w (snd (simulateMeshGeneration wid w))"
    unfolding simulateMeshGeneration_def
    by (rule for_loop_segment) (simp_all add: step_body_returns segment_update_sleep)
  then show ?thesis by simp
qed

lemma simulatePINNTraining_segment:
  "segment wid 50 80 w (snd (simulatePINNTraining wid w))"
proof -
  have "segment wid (of_int 50) (of_int 80) w (snd (simulatePINNTraining wid w))"
    unfolding simulatePINNTraining_def
    by (rule for_loop_segment) (simp_all add: step_body_returns segment_update_sleep)
  then show ?thesis by simp
qed

lemma simulateModelValidation_segment:
  "segment wid 80 90 w (snd (simulateModelValidation wid w))"
proof -
  have "segment wid (of_int 80) (of_int 90) w (snd (simulateModelValidation wid w))"
    unfolding simulateModelValidation_def
    by (rule for_loop_segment) (simp_all add: step_body_returns segment_update_sleep)
  then show ?thesis by simp
qed

lemma simulate_returns:
  "fst (simulateProblemAnalysis wid w) = Inr ()"
  "fst (simulateMeshGeneration wid w) = Inr ()"
  "fst (simulatePINNTraining wid w) = Inr ()"
  "fst (simulateModelValidation wid w) = Inr ()"
  unfolding simulateProblemAnalysis_def simulateMeshGeneration_def simulatePINNTraining_def
    simulateModelValidation_def
  by (rule for_loop_returns, rule step_body_returns)+


lemma updateWorkflowStatus_frame:
  "sent (snd (updateWorkflowStatus wid st np step nm w)) = sent w"
  "sessions (snd (updateWorkflowStatus wid st np step nm w)) = sessions w"
  "broken (snd (updateWorkflowStatus wid st np step nm w)) = broken w"
  "clock (snd (updateWorkflowStatus wid st np step nm w)) = clock w"
  "visualization_outcome (snd (updateWorkflowStatus wid st np step nm w)) = visualization_outcome w"
  "results_outcome (snd (updateWorkflowStatus wid st np step nm w)) = results_outcome w"
  using updateWorkflowStatus_cases[of wid st np step nm w] by auto

lemma generateResultsAndVisualization_segment:
  "segment wid 90 100 w (snd (generateResultsAndVisualization wid w))"
proof -
  have k4: "segment wid 95 100 v
      (snd (updateWorkflowStatus wid ''processing'' (Some 100) (Some ''completed'') None v))" for v
    by (rule segment_mono[OF segment_update]) simp_all
  have k3: "segment wid 95 100 v
      (snd (await (results_put wid v) (\<lambda>_ w.
         updateWorkflowStatus wid ''processing'' (Some 100) (Some ''completed'') None w)))" for v
    by (rule await_segment[where mid=95]) (simp_all add: results_put_def segment_refl k4 split: outcome.splits)
  have k2: "segment wid 95 100 v
      (snd (await (createVisualization v) (\<lambda>_ w. await (results_put wid w) (\<lambda>_ w.
         updateWorkflowStatus wid ''processing'' (Some 100) (Some ''completed'') None w))))" for v
    by (rule await_segment[where mid=95]) (simp_all add: createVisualization_def segment_refl k3 split: outcome.splits)
  have k1: "segment wid 90 100 v
      (snd (await (updateWorkflowStatus wid ''processing'' (Some 95) (Some ''creating_visualization'') None v)
         (\<lambda>_ w. await (createVisualization w) (\<lambda>_ w. await (results_put wid w) (\<lambda>_ w.
         updateWorkflowStatus wid ''processing'' (Some 100) (Some ''completed'') None w)))))" for v
    by (rule await_segment[where mid=95]) (simp_all add: k2 segment_mono[OF segment_update])
  show ?thesis
    unfolding generateResultsAndVisualization_def
    by (rule await_segment[where mid=90]) (simp_all add: k1 segment_update)
qed

lemma generateResultsAndVisualization_returns:
  assumes "visualization_outcome w = Ok" "results_outcome w = Ok"
  shows "fst (generateResultsAndVisualization wid w) = Inr ()"
proof -
  define w1 where "w1 = snd (updateWorkflowStatus wid ''processing'' (Some 90) (Some ''generating_results'') None w)"
  define w2 where "w2 = snd (updateWorkflowStatus wid ''processing'' (Some 95) (Some ''creating_visualization'') None w1)"
  have e1: "updateWorkflowStatus wid ''processing'' (Some 90) (Some ''generating_results'') None w = (Inr (), w1)"
    unfolding w1_def by (rule updateWorkflowStatus_pair)
  have e2: "updateWorkflowStatus wid ''processing'' (Some 95) (Some ''creating_visualization'') None w1 = (Inr (), w2)"
    unfolding w2_def by (rule updateWorkflowStatus_pair)
  have o: "visualization_outcome w2 = Ok" "results_outcome w2 = Ok"
    using assms by (simp_all add: w1_def w2_def updateWorkflowStatus_frame)
  have cv: "createVisualization w2 = (Inr (), w2)" using o by (simp add: createVisualization_def)
  have rp: "results_put wid w2 = (Inr (), w2)" using o by (simp add: results_put_def)
  show ?thesis
    by (simp add: generateResultsAndVisualization_def await_def e1 e2 cv rp updateWorkflowStatus_returns)
qed

lemma processWorkflow_try_shape:
  "\<exists>w1. segment wid 10 100 w w1 \<and>
     ((\<exists>e. processWorkflow_try wid w = (Inl e, w1)
           \<and> \<not> (visualization_outcome w = Ok \<and> results_outcome w = Ok))
      \<or> processWorkflow_try wid w =
           updateWorkflowStatus wid ''completed'' (Some 100) (Some ''finished'') None w1)"
proof -
  define w1 where "w1 = snd (updateWorkflowStatus wid ''processing'' (Some 10) (Some ''initializing'') None w)"
  define w2 where "w2 = snd (simulateProblemAnalysis wid w1)"
  define w3 where "w3 = snd (simulateMeshGeneration wid w2)"
  define w4 where "w4 = snd (simulatePINNTraining wid w3)"
  define w5 where "w5 = snd (simulateModelValidation wid w4)"
  define w6 where "w6 = snd (generateResultsAndVisualization wid w5)"
  have e1: "updateWorkflowStatus wid ''processing'' (Some 10) (Some ''initializing'') None w = (Inr (), w1)"
    unfolding w1_def by (rule updateWorkflowStatus_pair)
  have e2: "simulateProblemAnalysis wid w1 = (Inr (), w2)"
    by (simp add: prod_eq_iff w2_def simulate_returns)
  have e3: "simulateMeshGeneration wid w2 = (Inr (), w3)"
    by (simp add: prod_eq_iff w3_def simulate_returns)
  have e4: "simulatePINNTraining wid w3 = (Inr (), w4)"
    by (simp add: prod_eq_iff w4_def simulate_returns)
  have e5: "simulateModelValidation wid w4 = (Inr (), w5)"
    by (simp add: prod_eq_iff w5_def simulate_returns)
  have s1: "segment wid 10 10 w w1" unfolding w1_def by (rule segment_update)
  have s2: "segment wid 10 30 w w2"
    by (rule segment_trans[OF s1]) (simp_all add: w2_def simulateProblemAnalysis_segment)
  have s3: "segment wid 10 50 w w3"
    by (rule segment_trans[OF s2]) (simp_all add: w3_def simulateMeshGeneration_segment)
  have s4: "segment wid 10 80 w w4"
    by (rule segment_trans[OF s3]) (simp_all add: w4_def simulatePINNTraining_segment)
  have s5: "segment wid 10 90 w w5"
    by (rule segment_trans[OF s4]) (simp_all add: w5_def simulateModelValidation_segment)
  have s6: "segment wid 10 100 w w6"
    by (rule segment_trans[OF s5]) (simp_all add: w6_def generateResultsAndVisualization_segment)
  have body_eq: "processWorkflow_try wid w =
      await (generateResultsAndVisualization wid w5)
        (\<lambda>_ w. updateWorkflowStatus wid ''completed'' (Some 100) (Some ''finished'') None w)"
    by (simp add: processWorkflow_try_def await_def e1 e2 e3 e4 e5)
  show ?thesis
  proof (cases "fst (generateResultsAndVisualization wid w5)")
    case (Inl e)
    then have g: "generateResultsAndVisualization wid w5 = (Inl e, w6)"
      by (simp add: prod_eq_iff w6_def)
    have "\<not> (visualization_outcome w5 = Ok \<and> results_outcome w5 = Ok)"
      using generateResultsAndVisualization_returns[of w5 wid] Inl by auto
    moreover have "visualization_outcome w5 = visualization_outcome w" "results_outcome w5 = results_outcome w"
      using s5 unfolding segment_def by auto
    ultimately have "\<not> (visualization_outcome w = Ok \<and> results_outcome w = Ok)" by simp
    moreover have "processWorkflow_try wid w = (Inl e, w6)" by (simp add: body_eq g await_def)
    ultimately show ?thesis using s6 by blast
  next
    case (Inr u)
    then have g: "generateResultsAndVisualization wid w5 = (Inr (), w6)"
      by (simp add: prod_eq_iff w6_def)
    have "processWorkflow_try wid w =
        updateWorkflowStatus wid ''completed'' (Some 100) (Some ''finished'') None w6"
      by (simp add: body_eq g await_def)
    then show ?thesis using s6 by blast
  qed
qed


lemma sorted_snoc_last:
  fixes xs :: "real list"
  assumes "sorted xs" "xs \<noteq> [] \<Longrightarrow> last xs \<le> y"
  shows "sorted (xs @ [y])"
proof (cases "xs = []")
  case True
  then show ?thesis by simp
next
  case False
  have "x \<le> y" if "x \<in> set xs" for x
  proof -
    from that obtain i where i: "i < length xs" "xs ! i = x" by (auto simp: in_set_conv_nth)
    have "xs ! i \<le> xs ! (length xs - 1)"
      using assms(1) i(1) by (intro sorted_nth_mono) auto
    also have "\<dots> = last xs" using False by (simp add: last_conv_nth)
    finally show ?thesis using assms(2)[OF False] i(2) by simp
  qed
  with assms(1) show ?thesis by (simp add: sorted_append)
qed

lemma final_update_shape:
  assumes seg: "segment wid 10 100 w w1" and np: "np = None \<or> np = Some 100"
    and w2_def: "w2 = snd (updateWorkflowStatus wid st np step None w1)"
  shows "\<exists>ps fin. puts w2 = puts w @ ps @ fin
     \<and> (\<forall>x \<in> set ps. fst x = wid \<and> status (snd x) = ''processing'' \<and> 10 \<le> progress (snd x))
     \<and> sorted (map (progress \<circ> snd) (ps @ fin))
     \<and> length fin \<le> 1
     \<and> (\<forall>x \<in> set fin. fst x = wid
           \<and> WORKFLOWS_KV w2 wid = Some (snd x)
           \<and> (10 \<le> progress (snd x)
               \<or> (\<exists>r0. WORKFLOWS_KV w wid = Some r0 \<and> progress (snd x) = progress r0))
           \<and> status (snd x) = st)
     \<and> sent w2 = sent w
     \<and> sessions w2 = sessions w"
proof -
  from seg obtain ps where ps: "puts w1 = puts w @ ps"
    "\<forall>x \<in> set ps. fst x = wid \<and> status (snd x) = ''processing''
        \<and> 10 \<le> progress (snd x) \<and> progress (snd x) \<le> 100"
    "sorted (map (progress \<circ> snd) ps)"
    "if ps = [] then WORKFLOWS_KV w1 = WORKFLOWS_KV w else WORKFLOWS_KV w1 wid = Some (snd (last ps))"
    "sent w1 = sent w" "sessions w1 = sessions w"
    unfolding segment_def by blast
  have ps_low: "\<forall>x \<in> set ps. fst x = wid \<and> status (snd x) = ''processing'' \<and> 10 \<le> progress (snd x)"
    using ps(2) by blast
  from updateWorkflowStatus_cases[of wid st np step None w1]
  consider (skip) ks cs where "w2 = w1\<lparr>kv_script := ks, console := cs\<rparr>"
    | (put) r0 ks where "WORKFLOWS_KV w1 wid = Some r0"
        "w2 = w1\<lparr>kv_script := ks,
          WORKFLOWS_KV := (WORKFLOWS_KV w1)(wid \<mapsto> updated r0 st np step None (clock w1)),
          puts := puts w1 @ [(wid, updated r0 st np step None (clock w1))]\<rparr>"
    unfolding w2_def by blast
  then show ?thesis
  proof cases
    case skip
    have "puts w2 = puts w @ ps @ []" "sent w2 = sent w" "sessions w2 = sessions w"
      using skip ps by simp_all
    moreover have "sorted (map (progress \<circ> snd) (ps @ []))" using ps(3) by simp
    ultimately show ?thesis using ps_low
      by (rule_tac x=ps in exI, rule_tac x="[]" in exI) simp
  next
    case put
    define r where "r = updated r0 st np step None (clock w1)"
    have pr: "progress r = (case np of None \<Rightarrow> progress r0 | Some p \<Rightarrow> p)" and sr: "status r = st"
      by (simp_all add: r_def updated_def)
    have last_le: "last (map (progress \<circ> snd) ps) \<le> progress r" if "ps \<noteq> []"
    proof (cases np)
      case None
      from that ps(4) put(1) have "r0 = snd (last ps)" by simp
      with None pr that show ?thesis by (simp add: last_map)
    next
      case (Some p)
      with np have "progress r = 100" using pr by simp
      moreover have "last ps \<in> set ps" using that by simp
      ultimately show ?thesis using ps(2) that by (simp add: last_map)
    qed
    have sorted: "sorted (map (progress \<circ> snd) ps @ [progress r])"
      using sorted_snoc_last[OF ps(3), of "progress r"] last_le by simp
    have low: "10 \<le> progress r \<or> (\<exists>r0. WORKFLOWS_KV w wid = Some r0 \<and> progress r = progress r0)"
    proof (cases "ps = []")
      case True
      with ps(4) put(1) have "WORKFLOWS_KV w wid = Some r0" by simp
      moreover have "progress r = progress r0 \<or> progress r = 100" using pr np by auto
      ultimately show ?thesis by auto
    next
      case False
      then have "last ps \<in> set ps" by simp
      with ps(2) have "10 \<le> progress (snd (last ps))" by blast
      with last_le[OF False] False show ?thesis by (simp add: last_map)
    qed
    have a: "puts w2 = puts w @ ps @ [(wid, r)]" using put(2) ps(1) by (simp add: r_def)
    have b: "WORKFLOWS_KV w2 wid = Some r" using put(2) by (simp add: r_def)
    have c: "sent w2 = sent w" "sessions w2 = sessions w" using put(2) ps(5,6) by simp_all
    show ?thesis
      by (rule exI[of _ ps], rule exI[of _ "[(wid, r)]"]) (simp add: a b c sorted low sr ps_low)
  qed
qed


lemma processWorkflow_shape:
  "\<exists>ps fin. puts (snd (processWorkflow wid w)) = puts w @ ps @ fin
     \<and> (\<forall>x \<in> set ps. fst x = wid \<and> status (snd x) = ''processing'' \<and> 10 \<le> progress (snd x))
     \<and> sorted (map (progress \<circ> snd) (ps @ fin))
     \<and> length fin \<le> 1
     \<and> (\<forall>x \<in> set fin. fst x = wid
           \<and> WORKFLOWS_KV (snd (processWorkflow wid w)) wid = Some (snd x)
           \<and> (10 \<le> progress (snd x)
               \<or> (\<exists>r0. WORKFLOWS_KV w wid = Some r0 \<and> progress (snd x) = progress r0))
           \<and> status (snd x) = (if fst (processWorkflow wid w) = Inr () then ''completed'' else ''failed''))
     \<and> sent (snd (processWorkflow wid w)) = sent w
     \<and> sessions (snd (processWorkflow wid w)) = sessions w"
proof -
  obtain w1 where seg: "segment wid 10 100 w w1"
    and alt: "(\<exists>e. processWorkflow_try wid w = (Inl e, w1)
           \<and> \<not> (visualization_outcome w = Ok \<and> results_outcome w = Ok))
      \<or> processWorkflow_try wid w =
           updateWorkflowStatus wid ''completed'' (Some 100) (Some ''finished'') None w1"
    using processWorkflow_try_shape[of wid w] by blast
  show ?thesis
  proof (cases "\<exists>e. processWorkflow_try wid w = (Inl e, w1)")
    case True
    then obtain e where e: "processWorkflow_try wid w = (Inl e, w1)" by blast
    define w2 where "w2 = snd (updateWorkflowStatus wid ''failed'' None (Some (''error: '' @ error_message e)) None w1)"
    have u: "updateWorkflowStatus wid ''failed'' None (Some (''error: '' @ error_message e)) None w1 = (Inr (), w2)"
      unfolding w2_def by (rule updateWorkflowStatus_pair)
    have p: "processWorkflow wid w = (Inl e, w2)"
      using u by (simp add: processWorkflow_def e await_def)
    have "fst (processWorkflow wid w) \<noteq> Inr ()" "snd (processWorkflow wid w) = w2" by (simp_all add: p)
    then show ?thesis
      using final_update_shape[OF seg _ w2_def] by simp
  next
    case False
    with alt have t: "processWorkflow_try wid w =
           updateWorkflowStatus wid ''completed'' (Some 100) (Some ''finished'') None w1" by blast
    define w2 where "w2 = snd (updateWorkflowStatus wid ''completed'' (Some 100) (Some ''finished'') None w1)"
    have u: "updateWorkflowStatus wid ''completed'' (Some 100) (Some ''finished'') None w1 = (Inr (), w2)"
      unfolding w2_def by (rule updateWorkflowStatus_pair)
    have p: "processWorkflow wid w = (Inr (), w2)"
      using u by (simp add: processWorkflow_def t)
    have "fst (processWorkflow wid w) = Inr ()" "snd (processWorkflow wid w) = w2" by (simp_all add: p)
    then show ?thesis
      using final_update_shape[OF seg _ w2_def] by simp
  qed
qed

lemma processWorkflow_returns:
  assumes "visualization_outcome w = Ok" "results_outcome w = Ok"
  shows "fst (processWorkflow wid w) = Inr ()"
proof -
  obtain w1 where "processWorkflow_try wid w =
           updateWorkflowStatus wid ''completed'' (Some 100) (Some ''finished'') None w1"
    using processWorkflow_try_shape[of wid w] assms by blast
  then show ?thesis
    by (simp add: processWorkflow_def)
      (subst updateWorkflowStatus_pair, simp)
qed

text \<open>An update of a healthy store that holds the record.\<close>

lemma update_ok:
  "kv_script w = [] \<Longrightarrow> WORKFLOWS_KV w wid = Some r0 \<Longrightarrow>
   updateWorkflowStatus wid st np step nm w =
     (Inr (), w\<lparr>WORKFLOWS_KV := (WORKFLOWS_KV w)(wid \<mapsto> updated r0 st np step nm (clock w)),
                puts := puts w @ [(wid, updated r0 st np step nm (clock w))]\<rparr>)"
  by (simp add: updateWorkflowStatus_def updateWorkflowStatus_try_def await_def kv_get_def kv_put_def
      next_outcome_def updated_def Let_def split: option.splits)

lemma update_missing:
  "WORKFLOWS_KV w wid = None \<Longrightarrow>
     WORKFLOWS_KV (snd (updateWorkflowStatus wid st np step nm w)) = WORKFLOWS_KV w
     \<and> puts (snd (updateWorkflowStatus wid st np step nm w)) = puts w"
  using updateWorkflowStatus_cases[of wid st np step nm w] by auto

lemmas example_worlds = world_submitted_def world_observed_def world_completed_def world_three_def
  empty_world_def initial_workflow_def

subsection \<open>Failures of the store stay inside \<open>updateWorkflowStatus\<close>\<close>

text \<open>
  C10. No call of \<open>updateWorkflowStatus\<close> throws, whatever the store does: the call
  returns normally for every script of store failures. With no record under the id the
  call leaves the namespace as it was and writes nothing. Hence a run of \<open>processWorkflow\<close>
  whose steps do not throw (the visualisation service and the results namespace answer)
  returns normally and writes no record of status \<open>failed\<close>, whatever the store does.
\<close>

theorem updateWorkflowStatus_never_throws:
  "fst (updateWorkflowStatus wid st np step nm w) = Inr ()
   \<and> (WORKFLOWS_KV w wid = None \<longrightarrow>
        WORKFLOWS_KV (snd (updateWorkflowStatus wid st np step nm w)) = WORKFLOWS_KV w
        \<and> puts (snd (updateWorkflowStatus wid st np step nm w)) = puts w)
   \<and> (visualization_outcome w = Ok \<and> results_outcome w = Ok \<longrightarrow>
        fst (processWorkflow wid w) = Inr ()
        \<and> (\<forall>x \<in> set (drop (length (puts w)) (puts (snd (processWorkflow wid w)))).
              status (snd x) \<noteq> ''failed''))"
proof (intro conjI impI)
  show "fst (updateWorkflowStatus wid st np step nm w) = Inr ()"
    by (rule updateWorkflowStatus_returns)
next
  assume "WORKFLOWS_KV w wid = None"
  then show "WORKFLOWS_KV (snd (updateWorkflowStatus wid st np step nm w)) = WORKFLOWS_KV w"
    and "puts (snd (updateWorkflowStatus wid st np step nm w)) = puts w"
    using update_missing by blast+
next
  assume ok: "visualization_outcome w = Ok \<and> results_outcome w = Ok"
  then show ret: "fst (processWorkflow wid w) = Inr ()"
    by (simp add: processWorkflow_returns)
  obtain ps fin where sh: "puts (snd (processWorkflow wid w)) = puts w @ ps @ fin"
    "\<forall>x \<in> set ps. fst x = wid \<and> status (snd x) = ''processing'' \<and> 10 \<le> progress (snd x)"
    "\<forall>x \<in> set fin. fst x = wid
           \<and> WORKFLOWS_KV (snd (processWorkflow wid w)) wid = Some (snd x)
           \<and> (10 \<le> progress (snd x)
               \<or> (\<exists>r0. WORKFLOWS_KV w wid = Some r0 \<and> progress (snd x) = progress r0))
           \<and> status (snd x) = (if fst (processWorkflow wid w) = Inr () then ''completed'' else ''failed'')"
    using processWorkflow_shape[of wid w] by blast
  have "status (snd x) \<noteq> ''failed''" if "x \<in> set (ps @ fin)" for x
  proof (cases "x \<in> set ps")
    case True
    with sh(2) show ?thesis by simp
  next
    case False
    with that have "x \<in> set fin" by simp
    with sh(3) ret show ?thesis by simp
  qed
  then show "\<forall>x \<in> set (drop (length (puts w)) (puts (snd (processWorkflow wid w)))).
              status (snd x) \<noteq> ''failed''"
    by (simp add: sh(1))
qed

theorem updateWorkflowStatus_never_throws_witness:
  "fst (updateWorkflowStatus ''w1'' ''processing'' (Some 10) (Some ''initializing'') None world_faulty) = Inr ()
   \<and> WORKFLOWS_KV (snd (updateWorkflowStatus ''unknown'' ''processing'' (Some 10) None None world_submitted))
       = WORKFLOWS_KV world_submitted
   \<and> puts (snd (updateWorkflowStatus ''unknown'' ''processing'' (Some 10) None None world_submitted)) = []
   \<and> fst (processWorkflow ''w1'' world_faulty) = Inr ()
   \<and> ''failed'' \<notin> set (map (status \<circ> snd) (puts (snd (processWorkflow ''w1'' world_faulty))))"
proof -
  have a: "WORKFLOWS_KV world_submitted ''unknown'' = None"
    and b: "visualization_outcome world_faulty = Ok \<and> results_outcome world_faulty = Ok"
    and c: "puts world_faulty = []" "puts world_submitted = []"
    by (simp_all add: world_faulty_def example_worlds)
  show ?thesis
    using updateWorkflowStatus_never_throws[of "''w1''" "''processing''" "Some 10" "Some ''initializing''" None world_faulty]
      updateWorkflowStatus_never_throws[of "''unknown''" "''processing''" "Some 10" None None world_submitted]
      a b c
    by auto
qed

subsection \<open>The estimate of the remaining time\<close>




subsection \<open>Two runs, step by step\<close>

lemmas run_defs = processWorkflow_try_def simulateProblemAnalysis_def
  simulateMeshGeneration_def simulatePINNTraining_def simulateModelValidation_def
  generateResultsAndVisualization_def createVisualization_def results_put_def
  await_def sleep_def for_loop.simps update_ok updated_def

lemma example_run_progress:
  "map (progress \<circ> snd) (puts (snd (processWorkflow ''w1'' world_submitted))) =
     [10, 10, 15, 20, 25, 30, 30, 35, 40, 45, 50, 50, 52, 54, 56, 58, 60, 62, 64, 66, 68, 70,
      72, 74, 76, 78, 80, 80, 82, 84, 86, 88, 90, 90, 95, 100, 100]"
  by (simp add: processWorkflow_def run_defs example_worlds)

lemma example_fault_run:
  "\<exists>w1. processWorkflow_try ''w1'' world_boom = (Inl (Error ''boom''), w1)
      \<and> kv_script w1 = []
      \<and> map_option status (WORKFLOWS_KV w1 ''w1'') = Some ''processing''
      \<and> map_option progress (WORKFLOWS_KV w1 ''w1'') = Some 95
      \<and> map_option current_step (WORKFLOWS_KV w1 ''w1'') = Some ''creating_visualization''
      \<and> length (puts w1) = 35"
  by (simp add: run_defs example_worlds world_boom_def)

lemma processWorkflow_new_puts:
  "\<exists>ps fin. drop (length (puts w)) (puts (snd (processWorkflow wid w))) = ps @ fin
     \<and> take (length (puts w)) (puts (snd (processWorkflow wid w))) = puts w
     \<and> (\<forall>x \<in> set ps. fst x = wid \<and> status (snd x) = ''processing'' \<and> 10 \<le> progress (snd x))
     \<and> sorted (map (progress \<circ> snd) (ps @ fin))
     \<and> length fin \<le> 1
     \<and> (\<forall>x \<in> set fin. fst x = wid
           \<and> (10 \<le> progress (snd x)
               \<or> (\<exists>r0. WORKFLOWS_KV w wid = Some r0 \<and> progress (snd x) = progress r0)))"
proof -
  obtain ps fin where sh: "puts (snd (processWorkflow wid w)) = puts w @ ps @ fin"
    "\<forall>x \<in> set ps. fst x = wid \<and> status (snd x) = ''processing'' \<and> 10 \<le> progress (snd x)"
    "sorted (map (progress \<circ> snd) (ps @ fin))"
    "length fin \<le> 1"
    "\<forall>x \<in> set fin. fst x = wid
           \<and> WORKFLOWS_KV (snd (processWorkflow wid w)) wid = Some (snd x)
           \<and> (10 \<le> progress (snd x)
               \<or> (\<exists>r0. WORKFLOWS_KV w wid = Some r0 \<and> progress (snd x) = progress r0))
           \<and> status (snd x) = (if fst (processWorkflow wid w) = Inr () then ''completed'' else ''failed'')"
    using processWorkflow_shape[of wid w] by blast
  have "drop (length (puts w)) (puts (snd (processWorkflow wid w))) = ps @ fin"
    "take (length (puts w)) (puts (snd (processWorkflow wid w))) = puts w"
    by (simp_all add: sh(1))
  with sh(2,3,4,5) show ?thesis by blast
qed

subsection \<open>Progress never decreases\<close>

text \<open>
  C4. The records that one run of \<open>processWorkflow\<close> persists are all written under the
  id of the run, the log only grows, and along the records of the run, the terminal one
  included, the progress never decreases. When the run starts from a record whose
  progress is at most 10, as the record of a fresh workflow is (progress 0), the sequence
  that starts with that record never decreases either. This holds for every script of
  store failures and whether or not a step throws.
\<close>

theorem processWorkflow_progress_nondecreasing:
  "sorted (map (progress \<circ> snd) (drop (length (puts w)) (puts (snd (processWorkflow wid w)))))
   \<and> take (length (puts w)) (puts (snd (processWorkflow wid w))) = puts w
   \<and> (\<forall>x \<in> set (drop (length (puts w)) (puts (snd (processWorkflow wid w)))). fst x = wid)
   \<and> (\<forall>r0. WORKFLOWS_KV w wid = Some r0 \<and> progress r0 \<le> 10 \<longrightarrow>
         sorted (progress r0 #
           map (progress \<circ> snd) (drop (length (puts w)) (puts (snd (processWorkflow wid w))))))"
proof -
  obtain ps fin where sh: "drop (length (puts w)) (puts (snd (processWorkflow wid w))) = ps @ fin"
    "take (length (puts w)) (puts (snd (processWorkflow wid w))) = puts w"
    "\<forall>x \<in> set ps. fst x = wid \<and> status (snd x) = ''processing'' \<and> 10 \<le> progress (snd x)"
    "sorted (map (progress \<circ> snd) (ps @ fin))"
    "\<forall>x \<in> set fin. fst x = wid
           \<and> (10 \<le> progress (snd x)
               \<or> (\<exists>r0. WORKFLOWS_KV w wid = Some r0 \<and> progress (snd x) = progress r0))"
    using processWorkflow_new_puts[of w wid] by blast
  have keys: "\<forall>x \<in> set (ps @ fin). fst x = wid" using sh(3,5) by auto
  have first: "sorted (progress r0 # map (progress \<circ> snd) (ps @ fin))"
    if "WORKFLOWS_KV w wid = Some r0 \<and> progress r0 \<le> 10" for r0
  proof -
    have "progress r0 \<le> progress (snd x)" if x: "x \<in> set (ps @ fin)" for x
    proof (cases "x \<in> set ps")
      case True
      with sh(3) \<open>WORKFLOWS_KV w wid = Some r0 \<and> progress r0 \<le> 10\<close> show ?thesis by fastforce
    next
      case False
      with x have "x \<in> set fin" by simp
      with sh(5) have "10 \<le> progress (snd x)
               \<or> (\<exists>r0. WORKFLOWS_KV w wid = Some r0 \<and> progress (snd x) = progress r0)" by blast
      with \<open>WORKFLOWS_KV w wid = Some r0 \<and> progress r0 \<le> 10\<close> show ?thesis by auto
    qed
    with sh(4) show ?thesis by auto
  qed
  show ?thesis using sh(1,2,4) keys first by simp
qed

theorem processWorkflow_progress_nondecreasing_witness:
  "sorted (0 # map (progress \<circ> snd) (puts (snd (processWorkflow ''w1'' world_submitted))))
   \<and> map (progress \<circ> snd) (puts (snd (processWorkflow ''w1'' world_submitted))) =
       [10, 10, 15, 20, 25, 30, 30, 35, 40, 45, 50, 50, 52, 54, 56, 58, 60, 62, 64, 66, 68, 70,
        72, 74, 76, 78, 80, 80, 82, 84, 86, 88, 90, 90, 95, 100, 100]"
proof -
  have a: "puts world_submitted = []"
    and b: "WORKFLOWS_KV world_submitted ''w1'' = Some (initial_workflow ''w1'' 0)"
    and c: "progress (initial_workflow ''w1'' 0) = 0"
    by (simp_all add: example_worlds)
  from processWorkflow_progress_nondecreasing[of world_submitted "''w1''"] a b c
  have "sorted (0 # map (progress \<circ> snd) (puts (snd (processWorkflow ''w1'' world_submitted))))"
    by auto
  then show ?thesis using example_run_progress by blast
qed

subsection \<open>The orchestrator never notifies\<close>

text \<open>
  C1, as the code has it. \<open>updateWorkflowStatus\<close> computes the new record and calls
  \<open>WORKFLOWS_KV.put\<close>: either the put succeeded, and then the record is the last of the
  log and is what the namespace holds under the id, or nothing was written at all. In
  both cases no frame is sent to any socket and the registry of sessions is untouched:
  the orchestrator hands no notification to the broadcaster, neither after a failed put
  nor after a successful one.
\<close>

theorem updateWorkflowStatus_never_notifies:
  "sent (snd (updateWorkflowStatus wid st np step nm w)) = sent w
   \<and> sessions (snd (updateWorkflowStatus wid st np step nm w)) = sessions w
   \<and> ((\<exists>r. puts (snd (updateWorkflowStatus wid st np step nm w)) = puts w @ [(wid, r)]
            \<and> WORKFLOWS_KV (snd (updateWorkflowStatus wid st np step nm w)) wid = Some r)
        \<or> (puts (snd (updateWorkflowStatus wid st np step nm w)) = puts w
            \<and> WORKFLOWS_KV (snd (updateWorkflowStatus wid st np step nm w)) = WORKFLOWS_KV w))"
  using updateWorkflowStatus_cases[of wid st np step nm w] by auto

theorem updateWorkflowStatus_never_notifies_witness:
  "sent (snd (updateWorkflowStatus ''w1'' ''completed'' (Some 100) (Some ''finished'') None world_observed)) = []
   \<and> map fst (sessions (snd (updateWorkflowStatus ''w1'' ''completed'' (Some 100) (Some ''finished'') None world_observed)))
       = [''session_a'']"
  using updateWorkflowStatus_never_notifies[of "''w1''" "''completed''" "Some 100" "Some ''finished''" None world_observed]
  by (simp add: example_worlds)

text \<open>
  The claim as written fails: with a session that observes \<open>w1\<close> on a healthy socket,
  the put of the transition succeeds and no frame reaches the session.
\<close>

theorem put_without_notification_counterexample:
  "map (workflowId \<circ> snd) (sessions world_observed) = [''w1'']
   \<and> broken world_observed = {}
   \<and> map (\<lambda>x. (fst x, status (snd x), progress (snd x)))
        (puts (snd (updateWorkflowStatus ''w1'' ''processing'' (Some 10) (Some ''initializing'') None world_observed)))
       = [(''w1'', ''processing'', 10)]
   \<and> sent (snd (updateWorkflowStatus ''w1'' ''processing'' (Some 10) (Some ''initializing'') None world_observed)) = []"
  by (subst update_ok[where ?r0.0="initial_workflow ''w1'' 0"] |
      simp add: example_worlds updated_def)+

subsection \<open>Terminal records\<close>

text \<open>
  C7, as the code has it. \<open>updateWorkflowStatus\<close> has no guard for a terminal status:
  on a healthy store it overwrites whatever record it finds, a completed or failed one
  like any other, with the new status. Within one run of \<open>processWorkflow\<close> every record
  that the run persists before its last one has the status \<open>processing\<close>, so a record of
  status \<open>completed\<close> or \<open>failed\<close> is only ever the last write of the run.
\<close>

theorem terminal_record_is_last_write:
  "(\<forall>x \<in> set (butlast (drop (length (puts w)) (puts (snd (processWorkflow wid w))))).
       status (snd x) = ''processing'')
   \<and> (\<forall>r0. kv_script w = [] \<and> WORKFLOWS_KV w wid = Some r0 \<longrightarrow>
         WORKFLOWS_KV (snd (updateWorkflowStatus wid st np step nm w)) wid =
           Some (updated r0 st np step nm (clock w))
         \<and> status (updated r0 st np step nm (clock w)) = st)"
proof -
  obtain ps fin where sh: "drop (length (puts w)) (puts (snd (processWorkflow wid w))) = ps @ fin"
    "\<forall>x \<in> set ps. fst x = wid \<and> status (snd x) = ''processing'' \<and> 10 \<le> progress (snd x)"
    "length fin \<le> 1"
    using processWorkflow_new_puts[of w wid] by blast
  have "set (butlast (ps @ fin)) \<subseteq> set ps"
  proof (cases fin)
    case Nil
    then show ?thesis by (auto dest: in_set_butlastD)
  next
    case (Cons a rest)
    with sh(3) have "fin = [a]" by simp
    then show ?thesis by (simp add: butlast_append)
  qed
  with sh(1,2) have a: "\<forall>x \<in> set (butlast (drop (length (puts w)) (puts (snd (processWorkflow wid w))))).
       status (snd x) = ''processing''" by auto
  have b: "WORKFLOWS_KV (snd (updateWorkflowStatus wid st np step nm w)) wid =
           Some (updated r0 st np step nm (clock w))
         \<and> status (updated r0 st np step nm (clock w)) = st"
    if "kv_script w = [] \<and> WORKFLOWS_KV w wid = Some r0" for r0
    using that by (simp add: update_ok[of w wid r0] updated_def)
  from a b show ?thesis by blast
qed

theorem terminal_record_is_last_write_witness:
  "''completed'' \<notin> set (map (status \<circ> snd) (butlast (puts (snd (processWorkflow ''w1'' world_submitted)))))
   \<and> map_option status
       (WORKFLOWS_KV (snd (updateWorkflowStatus ''w1'' ''failed'' None (Some ''error: late'') None world_completed)) ''w1'')
       = Some ''failed''"
proof -
  have a: "puts world_submitted = []" "kv_script world_completed = []"
    and b: "WORKFLOWS_KV world_completed ''w1'' =
       Some ((initial_workflow ''w1'' 0)\<lparr>status := ''completed'', progress := 100,
                      current_step := ''finished'', estimated_remaining_time := Some 0\<rparr>)"
    by (simp_all add: example_worlds)
  from terminal_record_is_last_write[of world_submitted "''w1''"] a
  have 1: "\<forall>x \<in> set (butlast (puts (snd (processWorkflow ''w1'' world_submitted)))).
       status (snd x) = ''processing''" by simp
  from terminal_record_is_last_write[of world_completed "''w1''" "''failed''" None "Some ''error: late''" None] a b
  have 2: "map_option status
       (WORKFLOWS_KV (snd (updateWorkflowStatus ''w1'' ''failed'' None (Some ''error: late'') None world_completed)) ''w1'')
       = Some ''failed''" by simp
  from 1 have "''completed'' \<notin> set (map (status \<circ> snd) (butlast (puts (snd (processWorkflow ''w1'' world_submitted)))))"
    by auto
  with 2 show ?thesis by blast
qed

text \<open>
  The claim as written fails: an update of the completed workflow \<open>w1\<close> replaces its
  status and its progress.
\<close>

theorem completed_record_overwritten_counterexample:
  "map_option status (WORKFLOWS_KV world_completed ''w1'') = Some ''completed''
   \<and> map_option progress (WORKFLOWS_KV world_completed ''w1'') = Some 100
   \<and> map_option status
       (WORKFLOWS_KV (snd (updateWorkflowStatus ''w1'' ''processing'' (Some 10) (Some ''initializing'') None world_completed)) ''w1'')
       = Some ''processing''
   \<and> map_option progress
       (WORKFLOWS_KV (snd (updateWorkflowStatus ''w1'' ''processing'' (Some 10) (Some ''initializing'') None world_completed)) ''w1'')
       = Some 10"
  by (subst update_ok[where ?r0.0="(initial_workflow ''w1'' 0)\<lparr>status := ''completed'', progress := 100,
                      current_step := ''finished'', estimated_remaining_time := Some 0\<rparr>"] |
      simp add: example_worlds updated_def)+

subsection \<open>A step that throws\<close>

text \<open>
  C3, as the code has it. When a step throws the error \<open>e\<close> and the store then holds the
  record \<open>r0\<close> and answers, the \<open>catch\<close> of \<open>processWorkflow\<close> writes \<open>r0\<close> with the status
  \<open>failed\<close>, with the text \<open>error: \<close> followed by the message of \<open>e\<close> in the field
  \<open>current_step\<close> (the record has no field for an error message), with the estimate 0, and
  with every other field, the progress among them, as \<open>r0\<close> has it. The error is thrown
  again to the caller. No frame is sent to any socket.
\<close>

theorem processWorkflow_fault_marks_failed:
  assumes "processWorkflow_try wid w = (Inl e, w1)"
    and "WORKFLOWS_KV w1 wid = Some r0"
    and "kv_script w1 = []"
  shows "fst (processWorkflow wid w) = Inl e
    \<and> WORKFLOWS_KV (snd (processWorkflow wid w)) wid =
         Some (r0\<lparr>status := ''failed'', current_step := ''error: '' @ error_message e,
                  estimated_remaining_time := Some 0, updated_at := clock w1\<rparr>)
    \<and> puts (snd (processWorkflow wid w)) =
         puts w1 @ [(wid, r0\<lparr>status := ''failed'', current_step := ''error: '' @ error_message e,
                              estimated_remaining_time := Some 0, updated_at := clock w1\<rparr>)]
    \<and> ''error: '' @ error_message e \<noteq> []
    \<and> sent (snd (processWorkflow wid w)) = sent w"
proof -
  have u: "updateWorkflowStatus wid ''failed'' None (Some (''error: '' @ error_message e)) None w1 =
     (Inr (), w1\<lparr>WORKFLOWS_KV := (WORKFLOWS_KV w1)(wid \<mapsto>
                     updated r0 ''failed'' None (Some (''error: '' @ error_message e)) None (clock w1)),
                puts := puts w1 @ [(wid, updated r0 ''failed'' None (Some (''error: '' @ error_message e)) None (clock w1))]\<rparr>)"
    by (rule update_ok[OF assms(3,2)])
  have r: "updated r0 ''failed'' None (Some (''error: '' @ error_message e)) None (clock w1) =
      r0\<lparr>status := ''failed'', current_step := ''error: '' @ error_message e,
                  estimated_remaining_time := Some 0, updated_at := clock w1\<rparr>"
    by (simp add: updated_def remaining_time_def)
  have p: "processWorkflow wid w =
     (Inl e, w1\<lparr>WORKFLOWS_KV := (WORKFLOWS_KV w1)(wid \<mapsto>
                     updated r0 ''failed'' None (Some (''error: '' @ error_message e)) None (clock w1)),
                puts := puts w1 @ [(wid, updated r0 ''failed'' None (Some (''error: '' @ error_message e)) None (clock w1))]\<rparr>)"
    using u by (simp add: processWorkflow_def assms(1) await_def)
  have s: "sent (snd (processWorkflow wid w)) = sent w"
    using processWorkflow_shape[of wid w] by blast
  show ?thesis using s r by (simp add: p)
qed

theorem processWorkflow_fault_marks_failed_witness:
  "fst (processWorkflow ''w1'' world_boom) = Inl (Error ''boom'')
   \<and> map_option status (WORKFLOWS_KV (snd (processWorkflow ''w1'' world_boom)) ''w1'') = Some ''failed''
   \<and> map_option progress (WORKFLOWS_KV (snd (processWorkflow ''w1'' world_boom)) ''w1'') = Some 95
   \<and> map_option current_step (WORKFLOWS_KV (snd (processWorkflow ''w1'' world_boom)) ''w1'') = Some ''error: boom''
   \<and> sent (snd (processWorkflow ''w1'' world_boom)) = []"
proof -
  obtain w1 where t: "processWorkflow_try ''w1'' world_boom = (Inl (Error ''boom''), w1)"
    and k: "kv_script w1 = []"
    and st: "map_option progress (WORKFLOWS_KV w1 ''w1'') = Some 95"
    using example_fault_run by blast
  from st obtain r0 where r0: "WORKFLOWS_KV w1 ''w1'' = Some r0" "progress r0 = 95" by auto
  have s: "sent world_boom = []" by (simp add: world_boom_def example_worlds)
  from processWorkflow_fault_marks_failed[OF t r0(1) k] r0(2) s
  show ?thesis by simp
qed

text \<open>
  The claim as written fails: the session on socket 1 observes \<open>w1\<close>, the visualisation
  service throws in the run of \<open>w1\<close>, the run ends with the error, and the session has
  received no message, where the claim has it receive exactly one.
\<close>

theorem fault_without_broadcast_counterexample:
  "map (\<lambda>x. (webSocket (snd x), workflowId (snd x))) (sessions world_boom) = [(1, ''w1'')]
   \<and> broken world_boom = {}
   \<and> fst (processWorkflow ''w1'' world_boom) = Inl (Error ''boom'')
   \<and> length (received 1 (snd (processWorkflow ''w1'' world_boom))) \<noteq> 1"
proof -
  obtain w1 where t: "processWorkflow_try ''w1'' world_boom = (Inl (Error ''boom''), w1)"
    using example_fault_run by blast
  have "fst (processWorkflow ''w1'' world_boom) = Inl (Error ''boom'')"
    by (simp add: processWorkflow_def t await_def)
      (subst updateWorkflowStatus_pair, simp)
  moreover have "sent (snd (processWorkflow ''w1'' world_boom)) = sent world_boom"
    using processWorkflow_shape[of "''w1''" world_boom] by blast
  ultimately show ?thesis
    by (simp add: received_def world_boom_def example_worlds)
qed

subsection \<open>Sending and broadcasting\<close>

lemma sendMessage_eq:
  "sendMessage sock msg w =
     (Inr (), if sock \<in> broken w
              then w\<lparr>console := console w @ [''Failed to send WebSocket message: WebSocket send failed'']\<rparr>
              else w\<lparr>sent := sent w @ [(sock, (msg, clock w))]\<rparr>)"
  by (simp add: sendMessage_def webSocket_send_def)

lemma broadcast_loop_effect:
  "sent (snd (broadcast_loop ss wid msg w)) = sent w @ fanout ss wid msg w
   \<and> sessions (snd (broadcast_loop ss wid msg w)) = sessions w
   \<and> broken (snd (broadcast_loop ss wid msg w)) = broken w
   \<and> clock (snd (broadcast_loop ss wid msg w)) = clock w
   \<and> puts (snd (broadcast_loop ss wid msg w)) = puts w
   \<and> WORKFLOWS_KV (snd (broadcast_loop ss wid msg w)) = WORKFLOWS_KV w
   \<and> Promise_all (fst (broadcast_loop ss wid msg w)) = Inr ()"
proof (induction ss arbitrary: w)
  case Nil
  then show ?case by (simp add: fanout_def)
next
  case (Cons a ss)
  obtain k s where a: "a = (k, s)" by (cases a)
  show ?case
  proof (cases "workflowId s = wid")
    case False
    then show ?thesis using Cons[of w] by (simp add: a fanout_def)
  next
    case True
    define w1 where "w1 = snd (sendMessage (webSocket s) msg w)"
    have sm: "sendMessage (webSocket s) msg w = (Inr (), w1)"
      by (simp add: w1_def sendMessage_eq)
    have w1: "sent w1 = sent w @ (if webSocket s \<in> broken w then [] else [(webSocket s, (msg, clock w))])"
      "sessions w1 = sessions w" "broken w1 = broken w" "clock w1 = clock w" "puts w1 = puts w"
      "WORKFLOWS_KV w1 = WORKFLOWS_KV w"
      by (simp_all add: w1_def sendMessage_eq)
    have f: "fanout ss wid msg w1 = fanout ss wid msg w"
      by (simp add: fanout_def w1)
    have step: "broadcast_loop (a # ss) wid msg w =
        (Inr () # fst (broadcast_loop ss wid msg w1), snd (broadcast_loop ss wid msg w1))"
      using True by (simp add: a sm split: prod.splits)
    show ?thesis
      using Cons[of w1] True by (simp add: step w1 f) (simp add: fanout_def a)
  qed
qed

lemma broadcastToWorkflow_effect:
  "fst (broadcastToWorkflow wid msg w) = Inr ()"
  "sent (snd (broadcastToWorkflow wid msg w)) = sent w @ fanout (sessions w) wid msg w"
  "sessions (snd (broadcastToWorkflow wid msg w)) = sessions w"
  "broken (snd (broadcastToWorkflow wid msg w)) = broken w"
  "clock (snd (broadcastToWorkflow wid msg w)) = clock w"
  using broadcast_loop_effect[of "sessions w" wid msg w]
  by (simp_all add: broadcastToWorkflow_def case_prod_unfold)

lemma fanout_member:
  "x \<in> set ss \<Longrightarrow> workflowId (snd x) = wid \<Longrightarrow> webSocket (snd x) \<notin> broken w \<Longrightarrow>
     (webSocket (snd x), (msg, clock w)) \<in> set (fanout ss wid msg w)"
  unfolding fanout_def by (induction ss) auto

subsection \<open>A failing socket\<close>

text \<open>
  C5, as the code has it. A broadcast never returns an error to its caller. A socket
  that throws on \<open>send\<close> gets no frame, the failure is caught and logged inside
  \<open>sendMessage\<close>, and every session of the workflow id whose socket accepts the frame
  receives it, in the order of the registry. The registry is left as it was: the session
  whose send failed is still registered after the broadcast (only the listeners for
  \<open>close\<close> and \<open>error\<close> of the socket delete a session).
\<close>

theorem broadcastToWorkflow_contains_send_failures:
  "fst (broadcastToWorkflow wid msg w) = Inr ()
   \<and> sessions (snd (broadcastToWorkflow wid msg w)) = sessions w
   \<and> sent (snd (broadcastToWorkflow wid msg w)) =
       sent w @ map (\<lambda>x. (webSocket (snd x), (msg, clock w)))
                  (filter (\<lambda>x. workflowId (snd x) = wid \<and> webSocket (snd x) \<notin> broken w) (sessions w))"
  by (simp add: broadcastToWorkflow_effect fanout_def)

theorem broadcastToWorkflow_contains_send_failures_witness:
  "fst (broadcastToWorkflow ''w1'' (app_message ''workflow_terminal'' ''failed'') world_three_broken) = Inr ()
   \<and> sent (snd (broadcastToWorkflow ''w1'' (app_message ''workflow_terminal'' ''failed'') world_three_broken))
       = [(2, (app_message ''workflow_terminal'' ''failed'', 0))]"
  using broadcastToWorkflow_contains_send_failures[of "''w1''" "app_message ''workflow_terminal'' ''failed''" world_three_broken]
  by (simp add: world_three_broken_def example_worlds)

text \<open>
  The claim as written fails: socket 1 throws on send, and after the broadcast its
  session \<open>session_a\<close> is still in the registry.
\<close>

theorem failed_session_not_removed_counterexample:
  "1 \<in> broken world_three_broken
   \<and> map_option webSocket (map_of (sessions world_three_broken) ''session_a'') = Some 1
   \<and> map fst (sessions (snd (broadcastToWorkflow ''w1'' (app_message ''workflow_terminal'' ''failed'') world_three_broken)))
       = [''session_a'', ''session_b'', ''session_c'']"
  by (simp add: broadcastToWorkflow_def sendMessage_eq world_three_broken_def example_worlds)

subsection \<open>Who receives a broadcast\<close>

text \<open>
  C6. A broadcast to a workflow id delivers the frame to every session registered for
  that id whose socket accepts it, and every frame it delivers goes to the socket of a
  session registered for that id, so a session registered for another id, on a socket of
  its own, gets nothing. After a session was removed from the registry (the listener for
  \<open>close\<close>), a broadcast still delivers to every other session registered for the id whose
  socket accepts the frame; a broken socket of one session is the case of the first
  statement, in which \<open>broken\<close> is any set.
\<close>

theorem broadcastToWorkflow_reaches_its_group:
  "(\<forall>x \<in> set (sessions w). workflowId (snd x) = wid \<and> webSocket (snd x) \<notin> broken w \<longrightarrow>
       (webSocket (snd x), (msg, clock w))
         \<in> set (drop (length (sent w)) (sent (snd (broadcastToWorkflow wid msg w)))))
   \<and> (\<forall>y \<in> set (drop (length (sent w)) (sent (snd (broadcastToWorkflow wid msg w)))).
         snd y = (msg, clock w)
         \<and> (\<exists>x \<in> set (sessions w). workflowId (snd x) = wid \<and> webSocket (snd x) = fst y))
   \<and> (\<forall>x \<in> set (sessions w). fst x \<noteq> gone \<and> workflowId (snd x) = wid \<and> webSocket (snd x) \<notin> broken w \<longrightarrow>
         (webSocket (snd x), (msg, clock w))
           \<in> set (drop (length (sent w)) (sent (snd (broadcastToWorkflow wid msg (on_close gone w))))))"
proof (intro conjI ballI impI)
  have new: "drop (length (sent w)) (sent (snd (broadcastToWorkflow wid msg w))) = fanout (sessions w) wid msg w"
    by (simp add: broadcastToWorkflow_effect)
  {
    fix x assume "x \<in> set (sessions w)" "workflowId (snd x) = wid \<and> webSocket (snd x) \<notin> broken w"
    then have "(webSocket (snd x), (msg, clock w)) \<in> set (fanout (sessions w) wid msg w)"
      by (simp add: fanout_member)
    then show "(webSocket (snd x), (msg, clock w))
         \<in> set (drop (length (sent w)) (sent (snd (broadcastToWorkflow wid msg w))))"
      by (simp only: new)
  }
  {
    fix y assume "y \<in> set (drop (length (sent w)) (sent (snd (broadcastToWorkflow wid msg w))))"
    then have y: "y \<in> set (fanout (sessions w) wid msg w)" by (simp only: new)
    then show "snd y = (msg, clock w)" by (auto simp: fanout_def)
    from y show "\<exists>x \<in> set (sessions w). workflowId (snd x) = wid \<and> webSocket (snd x) = fst y"
      by (auto simp: fanout_def)
  }
  {
    fix x assume x: "x \<in> set (sessions w)"
      "fst x \<noteq> gone \<and> workflowId (snd x) = wid \<and> webSocket (snd x) \<notin> broken w"
    have c: "sent (on_close gone w) = sent w" "broken (on_close gone w) = broken w"
      "clock (on_close gone w) = clock w"
      "sessions (on_close gone w) = AList.delete gone (sessions w)"
      by (simp_all add: on_close_def)
    have new': "drop (length (sent w)) (sent (snd (broadcastToWorkflow wid msg (on_close gone w))))
        = fanout (AList.delete gone (sessions w)) wid msg (on_close gone w)"
      using broadcastToWorkflow_effect(2)[of wid msg "on_close gone w"] by (simp add: c)
    from x have "x \<in> set (AList.delete gone (sessions w))"
      by (auto simp: AList.delete_eq)
    with x(2) have "(webSocket (snd x), (msg, clock (on_close gone w)))
        \<in> set (fanout (AList.delete gone (sessions w)) wid msg (on_close gone w))"
      by (intro fanout_member) (simp_all add: c)
    then have "(webSocket (snd x), (msg, clock w))
        \<in> set (fanout (AList.delete gone (sessions w)) wid msg (on_close gone w))"
      by (simp add: c)
    then show "(webSocket (snd x), (msg, clock w))
           \<in> set (drop (length (sent w)) (sent (snd (broadcastToWorkflow wid msg (on_close gone w)))))"
      by (simp only: new')
  }
qed

theorem broadcastToWorkflow_reaches_its_group_witness:
  "sent (snd (broadcastToWorkflow ''w1'' pong world_three)) = [(1, (pong, 0)), (2, (pong, 0))]
   \<and> (2, (pong, 0)) \<in> set (sent (snd (broadcastToWorkflow ''w1'' pong (on_close ''session_a'' world_three))))
   \<and> (2, (pong, 0)) \<in> set (sent (snd (broadcastToWorkflow ''w1'' pong world_three_broken)))"
proof -
  let ?b = "(''session_b'', \<lparr>webSocket = 2, workflowId = ''w1'', connectedAt = 0, lastActivity = 0, subscriptions = None\<rparr>)"
  have m: "?b \<in> set (sessions world_three)" "?b \<in> set (sessions world_three_broken)"
    and e: "sent world_three = []" "clock world_three = 0" "broken world_three = {}"
      "sent world_three_broken = []" "clock world_three_broken = 0" "broken world_three_broken = {1}"
    by (simp_all add: world_three_broken_def example_worlds)
  note t = broadcastToWorkflow_reaches_its_group[of world_three "''w1''" pong "''session_a''"]
  note t' = broadcastToWorkflow_reaches_its_group[of world_three_broken "''w1''" pong "''session_a''"]
  have 1: "(2, (pong, 0)) \<in> set (sent (snd (broadcastToWorkflow ''w1'' pong (on_close ''session_a'' world_three))))"
    using t[THEN conjunct2, THEN conjunct2, THEN bspec, OF m(1)] by (simp add: e)
  have 2: "(2, (pong, 0)) \<in> set (sent (snd (broadcastToWorkflow ''w1'' pong world_three_broken)))"
    using t'[THEN conjunct1, THEN bspec, OF m(2)] by (simp add: e)
  have 3: "sent (snd (broadcastToWorkflow ''w1'' pong world_three)) = [(1, (pong, 0)), (2, (pong, 0))]"
    by (simp add: broadcastToWorkflow_def sendMessage_eq example_worlds)
  from 1 2 3 show ?thesis by simp
qed

subsection \<open>What a joining session is told\<close>

lemma handleSession_eq:
  "handleSession sock wid sid w =
     sendMessage sock (connection_established sid wid)
       (w\<lparr>sessions := AList.update sid
             \<lparr>webSocket = sock, workflowId = wid, connectedAt = clock w,
              lastActivity = clock w, subscriptions = None\<rparr> (sessions w)\<rparr>)"
  by (simp add: handleSession_def Let_def await_def sendMessage_eq)

text \<open>
  C2, as the code has it. \<open>handleSession\<close> registers the session under the workflow id and
  sends it one message, \<open>connection_established\<close>, when its socket accepts it; it reads
  nothing from the store. A status is sent by \<open>sendWorkflowStatus\<close>, on a request of the
  session: one message \<open>workflow_status\<close> whose status is \<open>processing\<close> and whose numbers
  are drawn at random; it reads nothing from the store either.
\<close>

theorem handleSession_sends_no_snapshot:
  "map_of (sessions (snd (handleSession sock wid sid w))) sid =
     Some \<lparr>webSocket = sock, workflowId = wid, connectedAt = clock w,
           lastActivity = clock w, subscriptions = None\<rparr>
   \<and> sent (snd (handleSession sock wid sid w)) =
       sent w @ (if sock \<in> broken w then [] else [(sock, (connection_established sid wid, clock w))])
   \<and> kv_script (snd (handleSession sock wid sid w)) = kv_script w
   \<and> sent (snd (sendWorkflowStatus sock wid (r1, r2, r3, r4) w)) =
       sent w @ (if sock \<in> broken w then []
                 else [(sock, (workflow_status wid
                         \<lparr>sp_status = ''processing'', sp_progress = r1 * 100,
                          sp_currentStep = ''pinn_training'',
                          sp_metrics = \<lparr>sm_accuracy = 85 / 100 + r2 * (1 / 10),
                                        sm_loss = (1 / 100) * r3,
                                        sm_epoch = \<lfloor>r4 * 5000\<rfloor>\<rparr>\<rparr>, clock w))])
   \<and> kv_script (snd (sendWorkflowStatus sock wid (r1, r2, r3, r4) w)) = kv_script w"
  by (simp add: handleSession_eq sendWorkflowStatus_def sendMessage_eq update_conv')

theorem handleSession_sends_no_snapshot_witness:
  "received 1 (snd (handleSession 1 ''w1'' ''session_a'' world_completed))
     = [connection_established ''session_a'' ''w1'']
   \<and> map shown_status (received 1 (snd (sendWorkflowStatus 1 ''w1'' (1 / 2, 1 / 2, 1 / 2, 1 / 2) world_completed)))
     = [Some ''processing'']"
  using handleSession_sends_no_snapshot[of 1 "''w1''" "''session_a''" world_completed "1 / 2" "1 / 2" "1 / 2" "1 / 2"]
  by (simp add: received_def example_worlds)

text \<open>
  The claim as written fails: the workflow \<open>w1\<close> has completed, a session joins and asks
  for the status; it is sent \<open>connection_established\<close> and then a \<open>workflow_status\<close> that
  says \<open>processing\<close>.
\<close>

theorem late_joiner_counterexample:
  "map_option status (WORKFLOWS_KV world_completed ''w1'') = Some ''completed''
   \<and> received 1 (snd (handleSession 1 ''w1'' ''session_a'' world_completed))
       = [connection_established ''session_a'' ''w1'']
   \<and> map shown_status
        (received 1 (snd (handleMessage ''session_a'' request_status (1 / 2, 1 / 2, 1 / 2, 1 / 2)
                            (snd (handleSession 1 ''w1'' ''session_a'' world_completed)))))
       = [None, Some ''processing'']"
  by (simp add: handleSession_eq handleMessage_def sendWorkflowStatus_def sendMessage_eq
      received_def example_worlds Let_def)

subsection \<open>The order of what a session receives\<close>

lemma subseq_sorted:
  fixes ys :: "real list"
  shows "subseq xs ys \<Longrightarrow> sorted ys \<Longrightarrow> sorted xs"
proof (induction xs ys rule: list_emb.induct)
  case (list_emb_Nil ys)
  then show ?case by simp
next
  case (list_emb_Cons xs ys y)
  then show ?case by simp
next
  case (list_emb_Cons2 x y xs ys)
  have "set xs \<subseteq> set ys" using list_emb_set[OF list_emb_Cons2(2)] by auto
  with list_emb_Cons2 show ?case by auto
qed

lemma received_fanout:
  "map (fst \<circ> snd) (filter (\<lambda>x. fst x = sock) (fanout ss wid msg w)) =
     map (\<lambda>x. msg)
       (filter (\<lambda>x. workflowId (snd x) = wid \<and> webSocket (snd x) \<notin> broken w)
          (filter (\<lambda>x. webSocket (snd x) = sock) ss))"
  by (induction ss) (auto simp: fanout_def)

lemma broadcastToWorkflow_received:
  assumes "filter (\<lambda>x. webSocket (snd x) = sock) (sessions w) = [(k, s)]" "sock \<notin> broken w"
  shows "received sock (snd (broadcastToWorkflow wid msg w)) =
           received sock w @ (if wid = workflowId s then [msg] else [])"
proof -
  have "(k, s) \<in> set (filter (\<lambda>x. webSocket (snd x) = sock) (sessions w))"
    by (simp add: assms(1))
  then have "webSocket s = sock" by simp
  then show ?thesis
    using assms by (auto simp: received_def broadcastToWorkflow_effect received_fanout)
qed

lemma broadcast_all_received:
  "filter (\<lambda>x. webSocket (snd x) = sock) (sessions w) = [(k, s)] \<Longrightarrow> sock \<notin> broken w \<Longrightarrow>
   received sock (broadcast_all calls w) =
     received sock w @ map snd (filter (\<lambda>c. fst c = workflowId s) calls)"
proof (induction calls arbitrary: w)
  case Nil
  then show ?case by simp
next
  case (Cons c calls)
  obtain wid msg where c: "c = (wid, msg)" by (cases c)
  let ?w1 = "snd (broadcastToWorkflow wid msg w)"
  have keep: "filter (\<lambda>x. webSocket (snd x) = sock) (sessions ?w1) = [(k, s)]" "sock \<notin> broken ?w1"
    using Cons.prems by (simp_all add: broadcastToWorkflow_effect)
  have "received sock (broadcast_all (c # calls) w) = received sock (broadcast_all calls ?w1)"
    by (simp add: c)
  also have "\<dots> = received sock ?w1 @ map snd (filter (\<lambda>c. fst c = workflowId s) calls)"
    by (rule Cons.IH[OF keep])
  also have "received sock ?w1 = received sock w @ (if wid = workflowId s then [msg] else [])"
    by (rule broadcastToWorkflow_received[OF Cons.prems])
  finally show ?case by (simp add: c)
qed

text \<open>
  C9, as the code has it. The messages handed to \<open>broadcastToWorkflow\<close>, call after call,
  reach a registered session with a socket of its own that accepts them in the order of
  the calls: the session receives exactly the messages of the calls for its workflow id,
  in that order. Two such sessions that observe the same workflow id therefore receive
  the same messages in the same order.
\<close>

theorem broadcasts_arrive_in_call_order:
  assumes "filter (\<lambda>x. webSocket (snd x) = sock1) (sessions w) = [(k1, s1)]" "sock1 \<notin> broken w"
    and "filter (\<lambda>x. webSocket (snd x) = sock2) (sessions w) = [(k2, s2)]" "sock2 \<notin> broken w"
    and "workflowId s1 = workflowId s2"
  shows "received sock1 (broadcast_all calls w) =
           received sock1 w @ map snd (filter (\<lambda>c. fst c = workflowId s1) calls)
       \<and> received sock2 (broadcast_all calls w) =
           received sock2 w @ map snd (filter (\<lambda>c. fst c = workflowId s1) calls)"
  using broadcast_all_received[OF assms(1,2), of calls] broadcast_all_received[OF assms(3,4), of calls]
    assms(5)
  by simp

theorem broadcasts_arrive_in_call_order_witness:
  "received 1 (broadcast_all [(''w1'', app_message ''progress'' ''10''), (''w2'', pong),
                              (''w1'', app_message ''progress'' ''15'')] world_three)
     = [app_message ''progress'' ''10'', app_message ''progress'' ''15'']
   \<and> received 2 (broadcast_all [(''w1'', app_message ''progress'' ''10''), (''w2'', pong),
                              (''w1'', app_message ''progress'' ''15'')] world_three)
     = [app_message ''progress'' ''10'', app_message ''progress'' ''15'']"
proof -
  let ?a = "\<lparr>webSocket = 1, workflowId = ''w1'', connectedAt = 0, lastActivity = 0, subscriptions = None\<rparr>"
  let ?b = "\<lparr>webSocket = 2, workflowId = ''w1'', connectedAt = 0, lastActivity = 0, subscriptions = None\<rparr>"
  have a: "filter (\<lambda>x. webSocket (snd x) = 1) (sessions world_three) = [(''session_a'', ?a)]"
    and b: "filter (\<lambda>x. webSocket (snd x) = 2) (sessions world_three) = [(''session_b'', ?b)]"
    and h: "1 \<notin> broken world_three" "2 \<notin> broken world_three"
    and e: "received 1 world_three = []" "received 2 world_three = []"
    by (simp_all add: received_def example_worlds)
  have i: "workflowId ?a = workflowId ?b" by simp
  from broadcasts_arrive_in_call_order[OF a h(1) b h(2) i,
      of "[(''w1'', app_message ''progress'' ''10''), (''w2'', pong), (''w1'', app_message ''progress'' ''15'')]"] e
  show ?thesis by simp
qed

text \<open>
  The claim as written fails for the messages that a session receives: the timer of the
  session sends it the progress 70 and then the progress 20 for \<open>w1\<close>, and these two are
  not, in this order, among the progress values that the orchestrator persisted for \<open>w1\<close>.
\<close>

theorem random_progress_counterexample:
  "List.map_filter shown_progress (received 1 world_ticked) = [70, 20]
   \<and> \<not> subseq (List.map_filter shown_progress (received 1 world_ticked))
          (persisted_progress ''w1'' world_ticked)"
proof -
  let ?w2 = "snd (periodic_update ''session_a'' ''w1'' (2 / 10) 0 (0, 0, 0, 0, 0)
         (snd (periodic_update ''session_a'' ''w1'' (7 / 10) 0 (0, 0, 0, 0, 0) world_observed)))"
  have s: "sent world_ticked = sent ?w2"
    unfolding world_ticked_def using processWorkflow_shape[of "''w1''" ?w2] by blast
  have p0: "puts ?w2 = []"
    by (simp add: periodic_update_def sendMessage_eq example_worlds)
  have seen: "List.map_filter shown_progress (received 1 world_ticked) = [70, 20]"
    by (simp add: received_def s periodic_update_def sendMessage_eq example_worlds)
  obtain ps fin where sh: "drop (length (puts ?w2)) (puts world_ticked) = ps @ fin"
    "sorted (map (progress \<circ> snd) (ps @ fin))"
    unfolding world_ticked_def using processWorkflow_new_puts[of ?w2 "''w1''"] by blast
  have "puts world_ticked = ps @ fin" using sh(1) p0 by simp
  then have "persisted_progress ''w1'' world_ticked =
      map (progress \<circ> snd) (filter (\<lambda>x. fst x = ''w1'') (ps @ fin))"
    by (simp add: persisted_progress_def)
  moreover have "sorted (map (progress \<circ> snd) (filter (\<lambda>x. fst x = ''w1'') (ps @ fin)))"
    using sh(2) by (simp only: sorted_map sorted_wrt_filter)
  ultimately have "sorted (persisted_progress ''w1'' world_ticked)" by simp
  moreover have "\<not> sorted [70, 20 :: real]" by simp
  ultimately have "\<not> subseq [70, 20] (persisted_progress ''w1'' world_ticked)"
    using subseq_sorted by blast
  with seen show ?thesis by simp
qed

end
